theory Spec2Isabelle
  imports Main
begin

section \<open>Strings and paths of the runtime\<close>

text \<open>
  The site class of Lume (the file \<^verbatim>\<open>site.ts\<close>) is embedded for a POSIX host, where the
  path separator \<^verbatim>\<open>SEP\<close> is \<^verbatim>\<open>/\<close> and \<^verbatim>\<open>join\<close> of the path module is its
  \<^verbatim>\<open>posix.join\<close>. Strings are byte sequences (UTF-8).
\<close>

definition startsWith :: "string \<Rightarrow> string \<Rightarrow> bool" where
  "startsWith s p = (take (length p) s = p)"

fun includes_str :: "string \<Rightarrow> string \<Rightarrow> bool" where
  "includes_str [] sub = (sub = [])"
| "includes_str (c # cs) sub = (startsWith (c # cs) sub \<or> includes_str cs sub)"

definition SEP :: char where
  "SEP = CHR ''/''"

definition replaceAll :: "string \<Rightarrow> char \<Rightarrow> char \<Rightarrow> string" where
  "replaceAll s a b = map (\<lambda>c. if c = a then b else c) s"

subsection \<open>The path module: \<^verbatim>\<open>posix.normalize\<close> and \<^verbatim>\<open>posix.join\<close>\<close>

text \<open>
  The path module is a dependency (Deno's standard library). Its \<^verbatim>\<open>normalizeString\<close>
  walks the segments between slashes: an empty segment and \<^verbatim>\<open>.\<close> are dropped,
  \<^verbatim>\<open>..\<close> removes the segment before it (or is kept, for a relative path with nothing
  left to remove), any other segment is kept.
\<close>

fun split_on :: "char \<Rightarrow> string \<Rightarrow> string list" where
  "split_on c [] = [[]]"
| "split_on c (x # xs) =
     (if x = c then [] # split_on c xs
      else (case split_on c xs of
              [] \<Rightarrow> [[x]]
            | s # ss \<Rightarrow> (x # s) # ss))"

fun join_segments :: "string list \<Rightarrow> string" where
  "join_segments [] = []"
| "join_segments [s] = s"
| "join_segments (s # t # ss) = s @ CHR ''/'' # join_segments (t # ss)"

fun normalize_segments :: "bool \<Rightarrow> string list \<Rightarrow> string list \<Rightarrow> string list" where
  "normalize_segments allowAboveRoot res [] = res"
| "normalize_segments allowAboveRoot res (seg # segs) =
     (if seg = [] \<or> seg = ''.'' then normalize_segments allowAboveRoot res segs
      else if seg = ''..'' then
        (if res \<noteq> [] \<and> last res \<noteq> ''..''
         then normalize_segments allowAboveRoot (butlast res) segs
         else if allowAboveRoot
         then normalize_segments allowAboveRoot (res @ [''..'']) segs
         else normalize_segments allowAboveRoot res segs)
      else normalize_segments allowAboveRoot (res @ [seg]) segs)"

definition normalizeString :: "string \<Rightarrow> bool \<Rightarrow> string" where
  "normalizeString path allowAboveRoot =
     join_segments (normalize_segments allowAboveRoot [] (split_on (CHR ''/'') path))"

definition posix_normalize :: "string \<Rightarrow> string" where
  "posix_normalize path =
     (if path = [] then ''.''
      else
        let isAbsolute = (hd path = CHR ''/'');
            trailingSeparator = (last path = CHR ''/'');
            p1 = normalizeString path (\<not> isAbsolute);
            p2 = (if p1 = [] \<and> \<not> isAbsolute then ''.'' else p1);
            p3 = (if p2 \<noteq> [] \<and> trailingSeparator then p2 @ ''/'' else p2)
        in if isAbsolute then CHR ''/'' # p3 else p3)"

definition posix_join :: "string list \<Rightarrow> string" where
  "posix_join paths =
     (let joined = join_segments (filter (\<lambda>p. p \<noteq> []) paths)
      in if joined = [] then ''.'' else posix_normalize joined)"

definition join :: "string list \<Rightarrow> string" where
  "join paths = posix_join paths"

subsection \<open>\<^verbatim>\<open>decodeURI\<close>\<close>

text \<open>
  The built-in \<^verbatim>\<open>decodeURI\<close>: every escape \<^verbatim>\<open>%XY\<close> is replaced by the character it
  encodes, except the escapes of the reserved characters and of \<^verbatim>\<open>#\<close>, which stay as
  they are. An escape with the high bit set starts a UTF-8 sequence whose other octets
  must be escapes too. A malformed escape raises \<^verbatim>\<open>URIError\<close>; here that is
  \<open>None\<close>.
\<close>

definition hex_digit :: "char \<Rightarrow> nat option" where
  "hex_digit c =
     (let n = of_char c :: nat in
      if 48 \<le> n \<and> n \<le> 57 then Some (n - 48)
      else if 65 \<le> n \<and> n \<le> 70 then Some (n - 55)
      else if 97 \<le> n \<and> n \<le> 102 then Some (n - 87)
      else None)"

fun read_escape :: "string \<Rightarrow> (nat \<times> string) option" where
  "read_escape (p # h # l # rest) =
     (if p = CHR ''%'' then
        (case (hex_digit h, hex_digit l) of
           (Some a, Some b) \<Rightarrow> Some (16 * a + b, rest)
         | _ \<Rightarrow> None)
      else None)"
| "read_escape _ = None"

fun read_continuations :: "nat \<Rightarrow> string \<Rightarrow> (nat list \<times> string) option" where
  "read_continuations 0 s = Some ([], s)"
| "read_continuations (Suc k) s =
     (case read_escape s of
        None \<Rightarrow> None
      | Some (b, rest) \<Rightarrow>
          if b div 64 \<noteq> 2 then None
          else (case read_continuations k rest of
                  None \<Rightarrow> None
                | Some (bs, rest') \<Rightarrow> Some (b # bs, rest')))"

definition utf8_length :: "nat \<Rightarrow> nat option" where
  "utf8_length b =
     (if b div 32 = 6 then Some 2
      else if b div 16 = 14 then Some 3
      else if b div 8 = 30 then Some 4
      else None)"

definition utf8_valid :: "nat \<Rightarrow> nat list \<Rightarrow> bool" where
  "utf8_valid b bs =
     (let n = Suc (length bs);
          lead = (if n = 2 then b mod 32 else if n = 3 then b mod 16 else b mod 8);
          cp = foldl (\<lambda>acc x. acc * 64 + x mod 64) lead bs
      in if n = 2 then 128 \<le> cp
         else if n = 3 then 2048 \<le> cp \<and> \<not> (55296 \<le> cp \<and> cp \<le> 57343)
         else 65536 \<le> cp \<and> cp \<le> 1114111)"

definition uriReserved :: string where
  "uriReserved = '';/?:@&=+$,#''"

lemma read_escape_shorter: "read_escape s = Some (b, rest) \<Longrightarrow> length rest < length s"
  by (induction s rule: read_escape.induct) (auto split: if_splits option.splits)

lemma read_continuations_shorter:
  "read_continuations k s = Some (bs, rest) \<Longrightarrow> length rest \<le> length s"
proof (induction k arbitrary: s bs rest)
  case 0
  then show ?case by simp
next
  case (Suc k)
  then show ?case
    by (fastforce split: option.splits if_splits dest: read_escape_shorter)
qed

function decodeURI :: "string \<Rightarrow> string option" where
  "decodeURI [] = Some []"
| "decodeURI (c # cs) =
     (if c \<noteq> CHR ''%'' then map_option ((#) c) (decodeURI cs)
      else
        (case read_escape (c # cs) of
           None \<Rightarrow> None
         | Some (b, rest) \<Rightarrow>
             if b < 128 then
               (if char_of b \<in> set uriReserved
                then map_option ((@) (take 3 (c # cs))) (decodeURI rest)
                else map_option ((#) (char_of b)) (decodeURI rest))
             else
               (case utf8_length b of
                  None \<Rightarrow> None
                | Some n \<Rightarrow>
                    (case read_continuations (n - 1) rest of
                       None \<Rightarrow> None
                     | Some (bs, rest') \<Rightarrow>
                         if utf8_valid b bs
                         then map_option ((@) (map char_of (b # bs))) (decodeURI rest')
                         else None))))"
  by pat_completeness auto
termination
proof (relation "measure length", goal_cases)
  case 1
  then show ?case by simp
next
  case 2
  then show ?case by simp
next
  case 3
  then show ?case by (auto dest: read_escape_shorter)
next
  case 4
  then show ?case by (auto dest: read_escape_shorter)
next
  case 5
  then show ?case
    by (auto dest!: read_escape_shorter read_continuations_shorter)
qed

section \<open>Data model\<close>

text \<open>
  An event has a type and, for the two update events, the set of the changed files.
\<close>

datatype event_type = BeforeBuild | BeforeSave | AfterBuild | BeforeUpdate | AfterUpdate

record event =
  ev_type :: event_type
  ev_files :: "string list option"

text \<open>
  A listener is a function or the name of a script. A JavaScript \<^verbatim>\<open>Set\<close> compares
  functions by identity and strings by value, so a function is represented by its
  identity, a number; what it does when called is given by the collaborators below.
\<close>

datatype listener = Callable nat | Named string

text \<open>What the promise returned by a listener function resolves to.\<close>

datatype js_value = JUndefined | JBool bool | JOther

text \<open>
  Of a page the site reads the source path, the extension and, with the type assertion
  \<^verbatim>\<open>page.data.url as string\<close>, the URL in its data.
\<close>

record page =
  src_path :: string
  src_ext :: string
  data_url :: string

text \<open>The option \<^verbatim>\<open>metrics\<close> is a boolean or the name of a file.\<close>

datatype metrics_option = MetricsFlag bool | MetricsFile string

record site_options =
  opt_cwd :: string
  opt_src :: string
  opt_dest :: string
  location_pathname :: string
  location_origin :: string
  opt_metrics :: metrics_option

text \<open>
  The state of the source collaborator that the site reads and writes: the static
  mappings in registration order, the ignored paths (a \<^verbatim>\<open>Set\<close>) and the loaded pages.
\<close>

record site_source =
  staticFiles :: "(string \<times> string) list"
  ignored :: "string list"
  source_pages :: "page list"

record site =
  options :: site_options
  source :: site_source
  listeners :: "event_type \<Rightarrow> listener list option"
  pages :: "page list"

text \<open>
  \<^verbatim>\<open>Set.prototype.add\<close>: a \<^verbatim>\<open>Set\<close> iterates in insertion order and holds no value twice.
\<close>

definition set_add :: "'a \<Rightarrow> 'a list \<Rightarrow> 'a list" where
  "set_add x xs = (if x \<in> set xs then xs else xs @ [x])"

text \<open>
  The exception of \<^verbatim>\<open>url\<close>, the one of \<^verbatim>\<open>decodeURI\<close>, and whatever a listener or
  a collaborator throws.
\<close>

datatype error = SourceNotFound string | URIError | Thrown nat

section \<open>The source collaborator and the helpers of \<^verbatim>\<open>utils.ts\<close>\<close>

text \<open>
  Modelled from the spec: \<^verbatim>\<open>source.ts\<close>, with \<^verbatim>\<open>addStaticFile\<close>, is not part of the
  sources at hand. A static mapping is an ordered pair (source prefix, destination
  prefix), and the mappings are kept in registration order.
\<close>

definition addStaticFile :: "string \<Rightarrow> string \<Rightarrow> site_source \<Rightarrow> site_source" where
  "addStaticFile from to src = src\<lparr>staticFiles := staticFiles src @ [(from, to)]\<rparr>"

text \<open>
  Modelled from the spec: \<^verbatim>\<open>source.ts\<close>, with \<^verbatim>\<open>isStatic\<close>, is not part of the sources
  at hand. The mappings are tested in registration order and the first one whose source
  prefix is a prefix of the path wins; the result is that pair, or none.
\<close>

definition isStatic :: "site_source \<Rightarrow> string \<Rightarrow> (string \<times> string) option" where
  "isStatic src file = find (\<lambda>(from, to). startsWith file from) (staticFiles src)"

text \<open>
  Modelled from the spec: \<^verbatim>\<open>source.ts\<close>, with \<^verbatim>\<open>addIgnoredPath\<close>, is not part of the
  sources at hand. The ignored paths are a set of path prefixes.
\<close>

definition addIgnoredPath :: "string \<Rightarrow> site_source \<Rightarrow> site_source" where
  "addIgnoredPath path src = src\<lparr>ignored := set_add path (ignored src)\<rparr>"

text \<open>
  Modelled from the spec: \<^verbatim>\<open>source.ts\<close>, with \<^verbatim>\<open>isIgnored\<close>, is not part of the sources
  at hand. A path is ignored when it falls under an ignored prefix.
\<close>

definition isIgnored :: "site_source \<Rightarrow> string \<Rightarrow> bool" where
  "isIgnored src path = list_ex (\<lambda>p. startsWith path p) (ignored src)"

text \<open>
  Two functions the site calls are left as parameters: \<^verbatim>\<open>normalizePath\<close> of
  \<^verbatim>\<open>utils.ts\<close>, which is not part of the sources at hand, and the parser behind
  \<^verbatim>\<open>new URL(path).href\<close>, which gives the normalised URL or fails.
\<close>

record runtime =
  normalizePath :: "string \<Rightarrow> string"
  parseURL :: "string \<Rightarrow> string option"

section \<open>Construction and configuration\<close>

text \<open>The options a user passes to the constructor: every one may be left out.\<close>

record user_options =
  user_cwd :: "string option"
  user_src :: "string option"
  user_dest :: "string option"
  user_location :: "(string \<times> string) option"
  user_metrics :: "metrics_option option"

text \<open>The defaults; \<open>cwd\<close> is what \<^verbatim>\<open>Deno.cwd()\<close> returns.\<close>

definition defaults :: "string \<Rightarrow> site_options" where
  "defaults cwd =
     \<lparr>opt_cwd = cwd, opt_src = ''./'', opt_dest = ''./_site'',
      location_pathname = ''/'', location_origin = ''http://localhost'',
      opt_metrics = MetricsFlag False\<rparr>"

text \<open>
  Modelled from the spec: \<^verbatim>\<open>utils.ts\<close>, with \<^verbatim>\<open>merge\<close>, is not part of the sources at
  hand. The options are produced by overlaying the user-supplied fields onto the
  defaults. A location is given here by its origin and its pathname; the options the
  site class does not read (includes, quiet, dev, prettyUrls, flags, server) are left out.
\<close>

definition merge :: "site_options \<Rightarrow> user_options \<Rightarrow> site_options" where
  "merge d u =
     \<lparr>opt_cwd = (case user_cwd u of None \<Rightarrow> opt_cwd d | Some v \<Rightarrow> v),
      opt_src = (case user_src u of None \<Rightarrow> opt_src d | Some v \<Rightarrow> v),
      opt_dest = (case user_dest u of None \<Rightarrow> opt_dest d | Some v \<Rightarrow> v),
      location_pathname = (case user_location u of None \<Rightarrow> location_pathname d | Some v \<Rightarrow> snd v),
      location_origin = (case user_location u of None \<Rightarrow> location_origin d | Some v \<Rightarrow> fst v),
      opt_metrics = (case user_metrics u of None \<Rightarrow> opt_metrics d | Some v \<Rightarrow> v)\<rparr>"

definition src :: "site \<Rightarrow> string list \<Rightarrow> string" where
  "src site path = join (opt_cwd (options site) # opt_src (options site) # path)"

definition dest :: "site \<Rightarrow> string list \<Rightarrow> string" where
  "dest site path = join (opt_cwd (options site) # opt_dest (options site) # path)"

definition copy :: "string \<Rightarrow> string option \<Rightarrow> site \<Rightarrow> site" where
  "copy from to_arg site =
     (let to = (case to_arg of None \<Rightarrow> from | Some t \<Rightarrow> t)
      in site\<lparr>source := addStaticFile (join [''/'', from]) (join [''/'', to]) (source site)\<rparr>)"

definition ignore :: "string list \<Rightarrow> site \<Rightarrow> site" where
  "ignore paths site =
     site\<lparr>source := foldl (\<lambda>s path. addIgnoredPath (join [''/'', path]) s) (source site) paths\<rparr>"

text \<open>
  Modelled from the spec: \<^verbatim>\<open>source.ts\<close>, with the constructor of the source
  collaborator, is not part of the sources at hand. A new one has no mapping, no ignored
  path and no page.
\<close>

definition new_source :: site_source where
  "new_source = \<lparr>staticFiles = [], ignored = [], source_pages = []\<rparr>"

definition constructor :: "string \<Rightarrow> user_options \<Rightarrow> site" where
  "constructor cwd opts =
     (let site = \<lparr>options = merge (defaults cwd) opts, source = new_source,
                  listeners = Map.empty, pages = []\<rparr>
      in if startsWith (dest site []) (src site [])
         then ignore [opt_dest (options site)] site
         else site)"

section \<open>URL resolution\<close>

text \<open>The last two statements of \<^verbatim>\<open>url\<close>: the base path and the origin.\<close>

definition url_base :: "site \<Rightarrow> string \<Rightarrow> bool \<Rightarrow> string" where
  "url_base site path absolute =
     (let path' = (if \<not> startsWith path (location_pathname (options site))
                   then posix_join [location_pathname (options site), path]
                   else path)
      in if absolute then location_origin (options site) @ path' else path')"

definition url :: "runtime \<Rightarrow> site \<Rightarrow> string \<Rightarrow> bool \<Rightarrow> error + string" where
  "url rt site path absolute =
     (if startsWith path ''./'' \<or> startsWith path ''../'' \<or> startsWith path ''?'' \<or>
         startsWith path ''#'' \<or> startsWith path ''//''
      then Inr path
      else if startsWith path ''~/'' then
        (case decodeURI (replaceAll (drop 1 path) (CHR ''/'') SEP) of
           None \<Rightarrow> Inl URIError
         | Some decoded \<Rightarrow>
             (case find (\<lambda>page. src_path page @ src_ext page = decoded) (pages site) of
                Some page \<Rightarrow> Inr (url_base site (data_url page) absolute)
              | None \<Rightarrow>
                  (case isStatic (source site) decoded of
                     Some (from, to) \<Rightarrow>
                       Inr (url_base site
                              (normalizePath rt (join [to, drop (length from) decoded])) absolute)
                   | None \<Rightarrow> Inl (SourceNotFound decoded))))
      else
        (case parseURL rt path of
           Some href \<Rightarrow> Inr href
         | None \<Rightarrow> Inr (url_base site path absolute)))"

section \<open>The data pattern \<^verbatim>\<open>/\/_data(?:\.\w+$|\/)/\<close>\<close>

definition word_char :: "char \<Rightarrow> bool" where
  "word_char ch =
     (ch \<in> set ''abcdefghijklmnopqrstuvwxyzABCDEFGHIJKLMNOPQRSTUVWXYZ0123456789_'')"

definition data_pattern_here :: "string \<Rightarrow> bool" where
  "data_pattern_here s =
     (startsWith s ''/_data'' \<and>
      (case drop 6 s of
         [] \<Rightarrow> False
       | ch # rest \<Rightarrow>
           ch = CHR ''/'' \<or> (ch = CHR ''.'' \<and> rest \<noteq> [] \<and> list_all word_char rest)))"

fun data_pattern :: "string \<Rightarrow> bool" where
  "data_pattern [] = False"
| "data_pattern (ch # rest) = (data_pattern_here (ch # rest) \<or> data_pattern rest)"

section \<open>The event bus: registration\<close>

text \<open>
  The listeners are a \<^verbatim>\<open>Map\<close> from event types to sets of listeners. A type has at most
  one \<^verbatim>\<open>Set\<close> during the life of the site: \<open>addEventListener\<close> adds to the one that is
  there. \<open>registered\<close> gives its elements in insertion order.
\<close>

definition addEventListener :: "event_type \<Rightarrow> listener \<Rightarrow> site \<Rightarrow> site" where
  "addEventListener type listener site =
     (let ls = (case listeners site type of None \<Rightarrow> [] | Some ls \<Rightarrow> ls)
      in site\<lparr>listeners := (listeners site)(type \<mapsto> set_add listener ls)\<rparr>)"

definition registered :: "site \<Rightarrow> event_type \<Rightarrow> listener list" where
  "registered site type = (case listeners site type of None \<Rightarrow> [] | Some ls \<Rightarrow> ls)"

section \<open>Effects\<close>

text \<open>
  A listener function and a script get the site and may call its methods while they run.
  The calls that change what is modelled here are the registration of a listener, of a
  static mapping and of an ignored path.
\<close>

datatype site_call =
    AddEventListener event_type listener
  | Copy string "string option"
  | Ignore "string list"

fun apply_call :: "site_call \<Rightarrow> site \<Rightarrow> site" where
  "apply_call (AddEventListener type listener) site = addEventListener type listener site"
| "apply_call (Copy from to) site = copy from to site"
| "apply_call (Ignore paths) site = ignore paths site"

definition apply_calls :: "site_call list \<Rightarrow> site \<Rightarrow> site" where
  "apply_calls calls site = foldl (\<lambda>s call. apply_call call s) site calls"

text \<open>
  Everything the site does to the outside goes through a collaborator: listener
  functions, the script runner, the emitter, the loader, the renderer and the metrics.
  A collaborator acts on a world \<open>'w\<close> the site cannot see, and either returns or throws.
  A listener function and the script runner also return the calls they made on the
  site, which are applied to it in their order; they do not dispatch events, build or
  update from inside a dispatch. The emitter, the loader, the renderer and the metrics
  register nothing. The script runner returns a boolean. The loader returns the pages
  of the source, the renderer the pages it leaves in the site. The trace of the calls is
  kept beside the world, where no collaborator can change it.
\<close>

datatype action =
    Call nat event
  | RunScript string
  | Clear
  | CopyFile string string
  | LoadDirectory
  | LoadFile string
  | BuildPages "page list"
  | SavePages "page list"
  | MetricStart string
  | MetricStop string
  | MetricsSave string
  | MetricsPrint

record 'w st =
  site_of :: site
  world :: 'w
  trace :: "action list"

record 'w collaborators =
  listener_call :: "nat \<Rightarrow> event \<Rightarrow> site \<Rightarrow> 'w \<Rightarrow> (error + js_value) \<times> site_call list \<times> 'w"
  scripts_run :: "string \<Rightarrow> site \<Rightarrow> 'w \<Rightarrow> (error + bool) \<times> site_call list \<times> 'w"
  emitter_clear :: "'w \<Rightarrow> (error + unit) \<times> 'w"
  emitter_copyFile :: "string \<Rightarrow> string \<Rightarrow> 'w \<Rightarrow> (error + unit) \<times> 'w"
  emitter_savePages :: "page list \<Rightarrow> 'w \<Rightarrow> (error + unit) \<times> 'w"
  source_loadDirectory :: "page list \<Rightarrow> 'w \<Rightarrow> (error + page list) \<times> 'w"
  source_loadFile :: "string \<Rightarrow> page list \<Rightarrow> 'w \<Rightarrow> (error + page list) \<times> 'w"
  renderer_buildPages :: "page list \<Rightarrow> 'w \<Rightarrow> (error + page list) \<times> 'w"
  metrics_save :: "string \<Rightarrow> 'w \<Rightarrow> (error + unit) \<times> 'w"
  metrics_print :: "'w \<Rightarrow> (error + unit) \<times> 'w"

text \<open>
  \<open>perform\<close> calls a collaborator and records the call; \<open>perform_on_site\<close> does so for a
  listener function or a script and applies the calls it made on the site;
  \<open>record_action\<close> only records (the start and the stop of a timed phase); \<open>and_then\<close> is
  the sequence of two awaited steps, where an exception of the first ends the run.
\<close>

definition perform :: "action \<Rightarrow> ('w \<Rightarrow> (error + 'a) \<times> 'w) \<Rightarrow> 'w st \<Rightarrow> (error + 'a) \<times> 'w st" where
  "perform a f s =
     (case f (world s) of (r, w) \<Rightarrow> (r, s\<lparr>world := w, trace := trace s @ [a]\<rparr>))"

definition perform_on_site ::
  "action \<Rightarrow> (site \<Rightarrow> 'w \<Rightarrow> (error + 'a) \<times> site_call list \<times> 'w) \<Rightarrow> 'w st \<Rightarrow> (error + 'a) \<times> 'w st" where
  "perform_on_site a f s =
     (case f (site_of s) (world s) of
        (r, calls, w) \<Rightarrow>
          (r, \<lparr>site_of = apply_calls calls (site_of s), world = w, trace = trace s @ [a]\<rparr>))"

definition record_action :: "action \<Rightarrow> 'w st \<Rightarrow> (error + unit) \<times> 'w st" where
  "record_action a s = (Inr (), s\<lparr>trace := trace s @ [a]\<rparr>)"

definition and_then ::
  "('s \<Rightarrow> (error + 'a) \<times> 's) \<Rightarrow> ('a \<Rightarrow> 's \<Rightarrow> (error + 'b) \<times> 's) \<Rightarrow> 's \<Rightarrow> (error + 'b) \<times> 's" where
  "and_then m k s = (case m s of (Inl e, s') \<Rightarrow> (Inl e, s') | (Inr x, s') \<Rightarrow> k x s')"

definition succeed :: "'a \<Rightarrow> 's \<Rightarrow> (error + 'a) \<times> 's" where
  "succeed x s = (Inr x, s)"

text \<open>
  A dispatch may go on forever, when its listeners keep registering new listeners for
  the event. A computation that contains a dispatch therefore has an optional result,
  \<open>None\<close> when it does not return: \<open>always\<close> is a step that returns, \<open>await_then\<close> the
  sequence of two such computations.
\<close>

definition always :: "('s \<Rightarrow> (error + 'a) \<times> 's) \<Rightarrow> 's \<Rightarrow> ((error + 'a) \<times> 's) option" where
  "always m s = Some (m s)"

definition await_then ::
  "('s \<Rightarrow> ((error + 'a) \<times> 's) option) \<Rightarrow> ('a \<Rightarrow> 's \<Rightarrow> ((error + 'b) \<times> 's) option) \<Rightarrow>
     's \<Rightarrow> ((error + 'b) \<times> 's) option" where
  "await_then m k s =
     (case m s of
        None \<Rightarrow> None
      | Some (Inl e, s') \<Rightarrow> Some (Inl e, s')
      | Some (Inr x, s') \<Rightarrow> k x s')"

section \<open>The event bus: dispatch\<close>

definition run :: "'w collaborators \<Rightarrow> string \<Rightarrow> 'w st \<Rightarrow> (error + bool) \<times> 'w st" where
  "run c name = perform_on_site (RunScript name) (scripts_run c name)"

text \<open>
  The loop of \<^verbatim>\<open>dispatchEvent\<close> over the \<^verbatim>\<open>Set\<close> of the type. The iteration of a
  \<^verbatim>\<open>Set\<close> is live: a listener added while the loop runs is visited too, after the ones
  that were there. So the loop is at a position \<open>i\<close> of the elements as they are now.
\<close>

partial_function (option) dispatch_loop ::
  "'w collaborators \<Rightarrow> event \<Rightarrow> nat \<Rightarrow> 'w st \<Rightarrow> ((error + bool) \<times> 'w st) option" where
  "dispatch_loop c event i s =
     (if i < length (registered (site_of s) (ev_type event)) then
        (case registered (site_of s) (ev_type event) ! i of
           Named name \<Rightarrow>
             (case run c name s of
                (Inl e, s') \<Rightarrow> Some (Inl e, s')
              | (Inr success, s') \<Rightarrow>
                  if \<not> success then Some (Inr False, s')
                  else dispatch_loop c event (Suc i) s')
         | Callable f \<Rightarrow>
             (case perform_on_site (Call f event) (listener_call c f event) s of
                (Inl e, s') \<Rightarrow> Some (Inl e, s')
              | (Inr v, s') \<Rightarrow>
                  if v = JBool False then Some (Inr False, s')
                  else dispatch_loop c event (Suc i) s'))
      else Some (Inr True, s))"

definition dispatchEvent ::
  "'w collaborators \<Rightarrow> event \<Rightarrow> 'w st \<Rightarrow> ((error + bool) \<times> 'w st) option" where
  "dispatchEvent c event s =
     (case listeners (site_of s) (ev_type event) of
        None \<Rightarrow> Some (Inr True, s)
      | Some ls \<Rightarrow> dispatch_loop c event 0 s)"

section \<open>Build and update\<close>

text \<open>
  The renderer holds the site and leaves the rendered pages in its \<^verbatim>\<open>pages\<close>; here
  \<open>renderer_buildPages\<close> returns them. The saves of one \<^verbatim>\<open>concurrent\<close> call are one
  step, \<open>emitter_savePages\<close>: how they interleave is not modelled. Each definition below
  is one block of \<^verbatim>\<open>build\<close> or of \<^verbatim>\<open>update\<close>; it reads the site as it is when the block
  starts.
\<close>

definition clear :: "'w collaborators \<Rightarrow> 'w st \<Rightarrow> (error + unit) \<times> 'w st" where
  "clear c = perform Clear (emitter_clear c)"

fun copyFiles :: "'w collaborators \<Rightarrow> (string \<times> string) list \<Rightarrow> 'w st \<Rightarrow> (error + unit) \<times> 'w st" where
  "copyFiles c [] = succeed ()"
| "copyFiles c ((from, to) # rest) =
     and_then (perform (CopyFile from to) (emitter_copyFile c from to)) (\<lambda>_. copyFiles c rest)"

definition copy_static :: "'w collaborators \<Rightarrow> 'w st \<Rightarrow> (error + unit) \<times> 'w st" where
  "copy_static c s =
     and_then (record_action (MetricStart ''Copy (all files)'')) (\<lambda>_.
     and_then (copyFiles c (staticFiles (source (site_of s)))) (\<lambda>_.
     record_action (MetricStop ''Copy (all files)''))) s"

definition set_source_pages :: "page list \<Rightarrow> 'w st \<Rightarrow> (error + unit) \<times> 'w st" where
  "set_source_pages loaded s =
     (Inr (), s\<lparr>site_of := (site_of s)\<lparr>source := (source (site_of s))\<lparr>source_pages := loaded\<rparr>\<rparr>\<rparr>)"

definition set_pages :: "page list \<Rightarrow> 'w st \<Rightarrow> (error + unit) \<times> 'w st" where
  "set_pages rendered s = (Inr (), s\<lparr>site_of := (site_of s)\<lparr>pages := rendered\<rparr>\<rparr>)"

definition loadDirectory :: "'w collaborators \<Rightarrow> 'w st \<Rightarrow> (error + unit) \<times> 'w st" where
  "loadDirectory c s =
     and_then (perform LoadDirectory (source_loadDirectory c (source_pages (source (site_of s)))))
       set_source_pages s"

definition load_all :: "'w collaborators \<Rightarrow> 'w st \<Rightarrow> (error + unit) \<times> 'w st" where
  "load_all c =
     and_then (record_action (MetricStart ''Load (all pages)'')) (\<lambda>_.
     and_then (loadDirectory c) (\<lambda>_.
     record_action (MetricStop ''Load (all pages)'')))"

definition buildPages :: "'w collaborators \<Rightarrow> 'w st \<Rightarrow> (error + unit) \<times> 'w st" where
  "buildPages c s =
     and_then (perform (BuildPages (source_pages (source (site_of s))))
                 (renderer_buildPages c (source_pages (source (site_of s)))))
       set_pages s"

definition render_all :: "'w collaborators \<Rightarrow> 'w st \<Rightarrow> (error + unit) \<times> 'w st" where
  "render_all c =
     and_then (record_action (MetricStart ''Preprocess + render + process (all pages)'')) (\<lambda>_.
     and_then (buildPages c) (\<lambda>_.
     record_action (MetricStop ''Preprocess + render + process (all pages)'')))"

definition savePages :: "'w collaborators \<Rightarrow> 'w st \<Rightarrow> (error + unit) \<times> 'w st" where
  "savePages c s =
     perform (SavePages (pages (site_of s))) (emitter_savePages c (pages (site_of s))) s"

definition save_all :: "'w collaborators \<Rightarrow> 'w st \<Rightarrow> (error + unit) \<times> 'w st" where
  "save_all c =
     and_then (record_action (MetricStart ''Save (all pages)'')) (\<lambda>_.
     and_then (savePages c) (\<lambda>_.
     record_action (MetricStop ''Save (all pages)'')))"

definition flush_metrics :: "'w collaborators \<Rightarrow> 'w st \<Rightarrow> (error + unit) \<times> 'w st" where
  "flush_metrics c s =
     (case opt_metrics (options (site_of s)) of
        MetricsFile metrics \<Rightarrow>
          (let path = join [opt_cwd (options (site_of s)), metrics]
           in perform (MetricsSave path) (metrics_save c path) s)
      | MetricsFlag metrics \<Rightarrow>
          if metrics then perform MetricsPrint (metrics_print c) s else succeed () s)"

definition build :: "'w collaborators \<Rightarrow> 'w st \<Rightarrow> ((error + unit) \<times> 'w st) option" where
  "build c =
     await_then (always (record_action (MetricStart ''Build (entire site)''))) (\<lambda>_.
     await_then (dispatchEvent c \<lparr>ev_type = BeforeBuild, ev_files = None\<rparr>) (\<lambda>_.
     await_then (always (clear c)) (\<lambda>_.
     await_then (always (copy_static c)) (\<lambda>_.
     await_then (always (load_all c)) (\<lambda>_.
     await_then (always (render_all c)) (\<lambda>_.
     await_then (dispatchEvent c \<lparr>ev_type = BeforeSave, ev_files = None\<rparr>) (\<lambda>_.
     await_then (always (save_all c)) (\<lambda>_.
     await_then (always (record_action (MetricStop ''Build (entire site)''))) (\<lambda>_.
     await_then (dispatchEvent c \<lparr>ev_type = AfterBuild, ev_files = None\<rparr>) (\<lambda>_.
     always (flush_metrics c)))))))))))"

subsection \<open>Update\<close>

definition loadFile :: "'w collaborators \<Rightarrow> string \<Rightarrow> 'w st \<Rightarrow> (error + unit) \<times> 'w st" where
  "loadFile c file s =
     and_then (perform (LoadFile file) (source_loadFile c file (source_pages (source (site_of s)))))
       set_source_pages s"

text \<open>The body of the loop over the changed files.\<close>

definition update_file ::
  "'w collaborators \<Rightarrow> runtime \<Rightarrow> string \<Rightarrow> 'w st \<Rightarrow> (error + unit) \<times> 'w st" where
  "update_file c rt file s =
     (case isStatic (source (site_of s)) file of
        Some (from, to) \<Rightarrow>
          (let target = join [to, drop (length from) file]
           in perform (CopyFile file target) (emitter_copyFile c file target) s)
      | None \<Rightarrow>
          if isIgnored (source (site_of s)) file then succeed () s
          else
            let normalized = normalizePath rt file
            in if data_pattern normalized then loadFile c file s
               else if includes_str normalized ''/_'' \<or> includes_str normalized ''/.''
               then succeed () s
               else loadFile c file s)"

fun update_files ::
  "'w collaborators \<Rightarrow> runtime \<Rightarrow> string list \<Rightarrow> 'w st \<Rightarrow> (error + unit) \<times> 'w st" where
  "update_files c rt [] = succeed ()"
| "update_files c rt (file # rest) =
     and_then (update_file c rt file) (\<lambda>_. update_files c rt rest)"

definition update ::
  "'w collaborators \<Rightarrow> runtime \<Rightarrow> string list \<Rightarrow> 'w st \<Rightarrow> ((error + unit) \<times> 'w st) option" where
  "update c rt files =
     await_then (dispatchEvent c \<lparr>ev_type = BeforeUpdate, ev_files = Some files\<rparr>) (\<lambda>_.
     await_then (always (update_files c rt files)) (\<lambda>_.
     await_then (always (buildPages c)) (\<lambda>_.
     await_then (dispatchEvent c \<lparr>ev_type = BeforeSave, ev_files = None\<rparr>) (\<lambda>_.
     await_then (always (savePages c)) (\<lambda>_.
     await_then (dispatchEvent c \<lparr>ev_type = AfterUpdate, ev_files = Some files\<rparr>) (\<lambda>_.
     always (succeed ())))))))"

section \<open>Notions used to state the properties\<close>

subsection \<open>Listeners\<close>

text \<open>
  The entry a listener leaves in the trace when the dispatch of an event invokes it.
\<close>

definition invocation :: "event \<Rightarrow> listener \<Rightarrow> action" where
  "invocation event l = (case l of Named name \<Rightarrow> RunScript name | Callable f \<Rightarrow> Call f event)"


text \<open>
  What one listener does and signals, read off the collaborators and not off the
  dispatch loop. A named listener is the script of that name, and it signals what the
  script runner returns: \<open>Inr True\<close> is success, \<open>Inr False\<close> is failure. A callable
  listener signals failure exactly when it returns the value \<^verbatim>\<open>false\<close>; every other
  value, \<^verbatim>\<open>undefined\<close> among them, is success. \<open>Inl\<close> is a listener that throws. In each
  case the calls the listener makes on the site are applied, the world is the one it
  leaves, and its invocation is added to the trace.
\<close>

fun outcome :: "'w collaborators \<Rightarrow> event \<Rightarrow> listener \<Rightarrow> 'w st \<Rightarrow> (error + bool) \<times> 'w st" where
  "outcome c event (Named name) s =
     (case scripts_run c name (site_of s) (world s) of
        (r, calls, w) \<Rightarrow>
          (r, \<lparr>site_of = apply_calls calls (site_of s), world = w,
               trace = trace s @ [RunScript name]\<rparr>))"
| "outcome c event (Callable f) s =
     (case listener_call c f event (site_of s) (world s) of
        (r, calls, w) \<Rightarrow>
          ((case r of Inl e \<Rightarrow> Inl e | Inr v \<Rightarrow> Inr (v \<noteq> JBool False)),
           \<lparr>site_of = apply_calls calls (site_of s), world = w,
            trace = trace s @ [Call f event]\<rparr>))"

text \<open>
  The listeners of a list, one after the other in the order of the list, up to the
  first one that does not succeed: the result is \<open>Inr True\<close> when all of them succeed,
  and otherwise what the first one that does not succeed signals, in the state that one
  leaves; no listener after it is invoked.
\<close>

fun run_listeners ::
  "'w collaborators \<Rightarrow> event \<Rightarrow> listener list \<Rightarrow> 'w st \<Rightarrow> (error + bool) \<times> 'w st" where
  "run_listeners c event [] s = (Inr True, s)"
| "run_listeners c event (l # ls) s =
     (case outcome c event l s of
        (r, s') \<Rightarrow> if r = Inr True then run_listeners c event ls s' else (r, s'))"



text \<open>Collaborators that never throw.\<close>

definition never_throws :: "'w collaborators \<Rightarrow> bool" where
  "never_throws c =
     ((\<forall>f event site w. \<not> isl (fst (listener_call c f event site w))) \<and>
      (\<forall>name site w. \<not> isl (fst (scripts_run c name site w))) \<and>
      (\<forall>w. \<not> isl (fst (emitter_clear c w))) \<and>
      (\<forall>from to w. \<not> isl (fst (emitter_copyFile c from to w))) \<and>
      (\<forall>ps w. \<not> isl (fst (emitter_savePages c ps w))) \<and>
      (\<forall>ps w. \<not> isl (fst (source_loadDirectory c ps w))) \<and>
      (\<forall>file ps w. \<not> isl (fst (source_loadFile c file ps w))) \<and>
      (\<forall>ps w. \<not> isl (fst (renderer_buildPages c ps w))) \<and>
      (\<forall>path w. \<not> isl (fst (metrics_save c path w))) \<and>
      (\<forall>w. \<not> isl (fst (metrics_print c w))))"

subsection \<open>The update classifier\<close>

text \<open>
  The update classifier as section 4.3 of the specification describes it: the five
  classes, the five checks in their fixed order, and what the caller does for a class.
\<close>

datatype file_class = Static string string | Ignored | DataReload | HiddenSkip | GenericReload

definition classify :: "runtime \<Rightarrow> site_source \<Rightarrow> string \<Rightarrow> file_class" where
  "classify rt files file =
     (case isStatic files file of
        Some (from, to) \<Rightarrow> Static from to
      | None \<Rightarrow>
          if isIgnored files file then Ignored
          else if data_pattern (normalizePath rt file) then DataReload
          else if includes_str (normalizePath rt file) ''/_'' \<or>
                  includes_str (normalizePath rt file) ''/.'' then HiddenSkip
          else GenericReload)"

definition class_action ::
  "'w collaborators \<Rightarrow> string \<Rightarrow> file_class \<Rightarrow> 'w st \<Rightarrow> (error + unit) \<times> 'w st" where
  "class_action c file cls =
     (case cls of
        Static from to \<Rightarrow>
          perform (CopyFile file (join [to, drop (length from) file]))
            (emitter_copyFile c file (join [to, drop (length from) file]))
      | Ignored \<Rightarrow> succeed ()
      | DataReload \<Rightarrow> loadFile c file
      | HiddenSkip \<Rightarrow> succeed ()
      | GenericReload \<Rightarrow> loadFile c file)"

definition class_trace :: "string \<Rightarrow> file_class \<Rightarrow> action list" where
  "class_trace file cls =
     (case cls of
        Static from to \<Rightarrow> [CopyFile file (join [to, drop (length from) file])]
      | Ignored \<Rightarrow> []
      | DataReload \<Rightarrow> [LoadFile file]
      | HiddenSkip \<Rightarrow> []
      | GenericReload \<Rightarrow> [LoadFile file])"



subsection \<open>Build and update\<close>

text \<open>The calls of the metrics flush, by the \<^verbatim>\<open>metrics\<close> option of the site.\<close>

definition metrics_actions :: "site \<Rightarrow> action list" where
  "metrics_actions site =
     (case opt_metrics (options site) of
        MetricsFile metrics \<Rightarrow> [MetricsSave (join [opt_cwd (options site), metrics])]
      | MetricsFlag metrics \<Rightarrow> if metrics then [MetricsPrint] else [])"

subsection \<open>Paths\<close>

text \<open>
  A relative path in normal form: it is not empty, and no segment of it is empty,
  \<^verbatim>\<open>.\<close> or \<^verbatim>\<open>..\<close>.
\<close>

definition plain_relative :: "string \<Rightarrow> bool" where
  "plain_relative p =
     list_all (\<lambda>seg. seg \<noteq> [] \<and> seg \<noteq> ''.'' \<and> seg \<noteq> ''..'') (split_on (CHR ''/'') p)"

text \<open>
  The path of a file from the source root, as the loader, the static mappings and the
  changed files of an update name it: what follows the source directory in the absolute
  path, with a slash in front.
\<close>

definition source_path :: "site \<Rightarrow> string \<Rightarrow> string" where
  "source_path site path = join [''/'', drop (length (src site [])) path]"

subsection \<open>Sites and collaborators to run the model on\<close>

text \<open>
  The world counts the calls. The listener function 0 returns \<open>false\<close>, the function 1
  returns \<open>undefined\<close> and every other one returns some other value; the function 4 calls
  \<^verbatim>\<open>site.copy("assets")\<close>; a script succeeds when its name is \<^verbatim>\<open>ok\<close>. The loader finds
  one page and the renderer gives every page the URL of its directory. The runtime is
  the one of a POSIX host, where \<^verbatim>\<open>normalizePath\<close> leaves a path with forward slashes as
  it is; the paths of the examples are no URLs.
\<close>

definition demo_collaborators :: "nat collaborators" where
  "demo_collaborators =
     \<lparr>listener_call = (\<lambda>f event site w.
        (if f = 0 then Inr (JBool False) else if f = 1 then Inr JUndefined else Inr JOther,
         if f = 4 then [Copy ''assets'' None] else [],
         Suc w)),
      scripts_run = (\<lambda>name site w. (Inr (name = ''ok''), [], Suc w)),
      emitter_clear = (\<lambda>w. (Inr (), Suc w)),
      emitter_copyFile = (\<lambda>from to w. (Inr (), Suc w)),
      emitter_savePages = (\<lambda>ps w. (Inr (), Suc w)),
      source_loadDirectory = (\<lambda>ps w.
        (Inr [\<lparr>src_path = ''/post'', src_ext = ''.md'', data_url = []\<rparr>], Suc w)),
      source_loadFile = (\<lambda>file ps w. (Inr ps, Suc w)),
      renderer_buildPages = (\<lambda>ps w.
        (Inr (map (\<lambda>p. p\<lparr>data_url := src_path p @ ''/''\<rparr>) ps), Suc w)),
      metrics_save = (\<lambda>path w. (Inr (), Suc w)),
      metrics_print = (\<lambda>w. (Inr (), Suc w))\<rparr>"

text \<open>
  The same collaborators, but the listener function 2 registers, while it runs, the
  function 1 as a listener of the type of the event it is called with.
\<close>

definition live_collaborators :: "nat collaborators" where
  "live_collaborators =
     demo_collaborators
       \<lparr>listener_call := (\<lambda>f event site w.
          if f = 2 then (Inr JOther, [AddEventListener (ev_type event) (Callable 1)], Suc w)
          else listener_call demo_collaborators f event site w)\<rparr>"

definition demo_runtime :: runtime where
  "demo_runtime = \<lparr>normalizePath = (\<lambda>path. path), parseURL = (\<lambda>path. None)\<rparr>"

definition no_options :: user_options where
  "no_options = \<lparr>user_cwd = None, user_src = None, user_dest = None,
                  user_location = None, user_metrics = None\<rparr>"

definition demo_site :: site where
  "demo_site = constructor ''/home/u'' no_options"

definition start :: "site \<Rightarrow> nat st" where
  "start site = \<lparr>site_of = site, world = 0, trace = []\<rparr>"

definition beforeBuild :: event where
  "beforeBuild = \<lparr>ev_type = BeforeBuild, ev_files = None\<rparr>"

definition beforeSave :: event where
  "beforeSave = \<lparr>ev_type = BeforeSave, ev_files = None\<rparr>"

definition afterBuild :: event where
  "afterBuild = \<lparr>ev_type = AfterBuild, ev_files = None\<rparr>"

text \<open>
  Three listeners of \<open>beforeBuild\<close>, the second of which vetoes; two listeners of
  \<open>afterBuild\<close> that succeed; and one listener of \<open>beforeBuild\<close> that registers another
  one when it runs with the collaborators \<open>live_collaborators\<close>.
\<close>

definition veto_site :: site where
  "veto_site =
     addEventListener BeforeBuild (Named ''ok'')
       (addEventListener BeforeBuild (Callable 0)
          (addEventListener BeforeBuild (Callable 1) demo_site))"

definition pass_site :: site where
  "pass_site =
     addEventListener AfterBuild (Named ''ok'')
       (addEventListener AfterBuild (Callable 1) demo_site)"

definition live_site :: site where
  "live_site = addEventListener BeforeBuild (Callable 2) demo_site"

text \<open>
  One listener of \<open>beforeSave\<close> that returns \<open>undefined\<close>, and a site where the same
  listener of \<open>beforeBuild\<close> is registered twice.
\<close>

definition undefined_site :: site where
  "undefined_site = addEventListener BeforeSave (Callable 1) demo_site"


text \<open>
  A site that prints its metrics, with listeners of all five types: of \<open>beforeBuild\<close>
  the function 4, which registers the static mapping of \<^verbatim>\<open>assets\<close>, the function 0,
  which vetoes, and a script that the dispatch does not reach; of \<open>beforeSave\<close> a script
  that fails; of \<open>afterBuild\<close> the function 1 and a script that succeeds; of
  \<open>beforeUpdate\<close> the function 0; of \<open>afterUpdate\<close> a script that succeeds. Then the same
  site after the call \<^verbatim>\<open>site.copy("assets")\<close>, and the files of an update.
\<close>

definition build_site :: site where
  "build_site =
     addEventListener AfterUpdate (Named ''ok'')
       (addEventListener BeforeUpdate (Callable 0)
          (addEventListener AfterBuild (Named ''ok'')
             (addEventListener AfterBuild (Callable 1)
                (addEventListener BeforeSave (Named ''fail'')
                   (addEventListener BeforeBuild (Named ''ok'')
                      (addEventListener BeforeBuild (Callable 0)
                         (addEventListener BeforeBuild (Callable 4)
                            (constructor ''/home/u''
                               (no_options\<lparr>user_metrics := Some (MetricsFlag True)\<rparr>)))))))))"

definition update_site :: site where
  "update_site = copy ''assets'' None build_site"

definition changed_files :: "string list" where
  "changed_files =
     [''/assets/logo.png'', ''/_data/colors.yml'', ''/_partials/header.html'', ''/index.md'']"

text \<open>
  A site where the directory \<^verbatim>\<open>_private\<close> is copied as a static mapping and ignored as
  well.
\<close>

definition classify_site :: site where
  "classify_site = ignore [''_private''] (copy ''_private'' (Some ''private'') demo_site)"

text \<open>
  A site whose source is the directory \<^verbatim>\<open>src\<close> of the working directory and whose
  destination is the directory \<^verbatim>\<open>out\<close> inside that source.
\<close>

definition nested_site :: site where
  "nested_site =
     constructor ''/home/u''
       (no_options\<lparr>user_src := Some ''src'', user_dest := Some ''src/out''\<rparr>)"

text \<open>
  A rendered page, on a site with the default location and on a site whose base path
  is \<^verbatim>\<open>/blog/\<close>.
\<close>

definition post_page :: page where
  "post_page = \<lparr>src_path = ''/post'', src_ext = ''.md'', data_url = ''/post/''\<rparr>"

definition post_site :: site where
  "post_site = demo_site\<lparr>pages := [post_page]\<rparr>"

definition blog_site :: site where
  "blog_site =
     (constructor ''/home/u'' (no_options\<lparr>user_location := Some (''http://example.com'', ''/blog/'')\<rparr>))
       \<lparr>pages := [post_page]\<rparr>"

section \<open>Properties of the event bus\<close>

lemma loop_body_outcome:
  "(case l of
      Named name \<Rightarrow>
        (case run c name s of
           (Inl e, s') \<Rightarrow> Some (Inl e, s')
         | (Inr success, s') \<Rightarrow>
             if \<not> success then Some (Inr False, s') else loop c event (Suc i) s')
    | Callable f \<Rightarrow>
        (case perform_on_site (Call f event) (listener_call c f event) s of
           (Inl e, s') \<Rightarrow> Some (Inl e, s')
         | (Inr v, s') \<Rightarrow>
             if v = JBool False then Some (Inr False, s') else loop c event (Suc i) s')) =
   (case outcome c event l s of
      (r, s') \<Rightarrow> if r = Inr True then loop c event (Suc i) s' else Some (r, s'))"
  by (cases l) (auto simp: run_def perform_on_site_def split: prod.splits sum.splits)

lemma dispatch_loop_unfold:
  "dispatch_loop c event i s =
     (if i < length (registered (site_of s) (ev_type event)) then
        (case outcome c event (registered (site_of s) (ev_type event) ! i) s of
           (r, s') \<Rightarrow> if r = Inr True then dispatch_loop c event (Suc i) s' else Some (r, s'))
      else Some (Inr True, s))"
  by (subst dispatch_loop.simps) (simp only: loop_body_outcome)

lemma dispatch_loop_stop:
  "\<not> i < length (registered (site_of s) (ev_type event)) \<Longrightarrow>
     dispatch_loop c event i s = Some (Inr True, s)"
  by (subst dispatch_loop_unfold) simp

lemma dispatch_loop_next:
  "i < length (registered (site_of s) (ev_type event)) \<Longrightarrow>
   outcome c event (registered (site_of s) (ev_type event) ! i) s = (Inr True, s') \<Longrightarrow>
     dispatch_loop c event i s = dispatch_loop c event (Suc i) s'"
  by (subst dispatch_loop_unfold) simp

lemma dispatch_loop_halt:
  "i < length (registered (site_of s) (ev_type event)) \<Longrightarrow>
   outcome c event (registered (site_of s) (ev_type event) ! i) s = (r, s') \<Longrightarrow>
   r \<noteq> Inr True \<Longrightarrow>
     dispatch_loop c event i s = Some (r, s')"
  by (subst dispatch_loop_unfold) simp

lemma dispatch_loop_induct [consumes 1, case_names stop halt step]:
  assumes ret: "dispatch_loop c event i s = Some y"
    and stop: "\<And>i s. \<not> i < length (registered (site_of s) (ev_type event)) \<Longrightarrow> P i s (Inr True, s)"
    and halt: "\<And>i s r s'. i < length (registered (site_of s) (ev_type event)) \<Longrightarrow>
        outcome c event (registered (site_of s) (ev_type event) ! i) s = (r, s') \<Longrightarrow>
        r \<noteq> Inr True \<Longrightarrow> P i s (r, s')"
    and step: "\<And>i s s' y. i < length (registered (site_of s) (ev_type event)) \<Longrightarrow>
        outcome c event (registered (site_of s) (ev_type event) ! i) s = (Inr True, s') \<Longrightarrow>
        dispatch_loop c event (Suc i) s' = Some y \<Longrightarrow> P (Suc i) s' y \<Longrightarrow> P i s y"
  shows "P i s y"
proof -
  define Q where "Q = (\<lambda>c' e' i s y.
      c' = c \<longrightarrow> e' = event \<longrightarrow> dispatch_loop c event i s = Some y \<and> P i s y)"
  have "Q c event i s y"
  proof (rule dispatch_loop.raw_induct [where P = Q, OF _ ret], goal_cases)
    case (1 loop c' e' i s y)
    note IH = 1(1) and hyp = 1(2)
    show ?case unfolding Q_def
    proof (intro impI)
      assume c: "c' = c" and e: "e' = event"
      show "dispatch_loop c event i s = Some y \<and> P i s y"
      proof (cases "i < length (registered (site_of s) (ev_type event))")
        case False
        with hyp c e have "y = (Inr True, s)" by simp
        with False stop [OF False] show ?thesis by (simp add: dispatch_loop_stop)
      next
        case True
        obtain r s' where out: "outcome c event (registered (site_of s) (ev_type event) ! i) s = (r, s')"
          by (cases "outcome c event (registered (site_of s) (ev_type event) ! i) s")
        from hyp c e True out
        have body: "(if r = Inr True then loop c event (Suc i) s' else Some (r, s')) = Some y"
          by (auto simp: loop_body_outcome split: if_splits)
        show ?thesis
        proof (cases "r = Inr True")
          case r: True
          with body have "loop c event (Suc i) s' = Some y" by simp
          from IH [OF this] have ih: "dispatch_loop c event (Suc i) s' = Some y" "P (Suc i) s' y"
            by (simp_all add: Q_def)
          from out r have out': "outcome c event (registered (site_of s) (ev_type event) ! i) s = (Inr True, s')"
            by simp
          from dispatch_loop_next [OF True out'] ih step [OF True out' ih]
          show ?thesis by simp
        next
          case r: False
          with body have "y = (r, s')" by simp
          with dispatch_loop_halt [OF True out r] halt [OF True out r] show ?thesis by simp
        qed
      qed
    qed
  qed
  then show ?thesis by (simp add: Q_def)
qed

lemma registered_addEventListener:
  "registered (addEventListener t l site) t' =
     (if t' = t then set_add l (registered site t) else registered site t')"
  by (simp add: registered_def addEventListener_def Let_def)

lemma registered_copy: "registered (copy p q site) t = registered site t"
  by (simp add: registered_def copy_def Let_def)

lemma registered_ignore: "registered (ignore paths site) t = registered site t"
  by (simp add: registered_def ignore_def)

lemma registered_apply_call_grows:
  "\<exists>added. registered (apply_call call site) t = registered site t @ added"
  by (cases call)
     (auto simp: registered_addEventListener registered_copy registered_ignore set_add_def)

lemma registered_apply_calls_grows:
  "\<exists>added. registered (apply_calls calls site) t = registered site t @ added"
  unfolding apply_calls_def
proof (induction calls arbitrary: site)
  case Nil
  then show ?case by simp
next
  case (Cons call calls)
  from registered_apply_call_grows [of call site t] obtain a where
    a: "registered (apply_call call site) t = registered site t @ a" by blast
  from Cons [of "apply_call call site"] obtain b where
    "registered (foldl (\<lambda>s call. apply_call call s) (apply_call call site) calls) t =
       registered (apply_call call site) t @ b" by blast
  with a have "registered (foldl (\<lambda>s call. apply_call call s) site (call # calls)) t =
      registered site t @ (a @ b)" by simp
  then show ?case by blast
qed

lemma outcome_site:
  "outcome c event l s = (r, s') \<Longrightarrow> \<exists>calls. site_of s' = apply_calls calls (site_of s)"
  by (cases l) (auto split: prod.splits)

lemma outcome_grows:
  assumes "outcome c event l s = (r, s')"
  shows "\<exists>added. registered (site_of s') t = registered (site_of s) t @ added"
proof -
  from outcome_site [OF assms] obtain calls where "site_of s' = apply_calls calls (site_of s)"
    by blast
  with registered_apply_calls_grows [of calls "site_of s" t] show ?thesis by simp
qed

lemma outcome_trace:
  "outcome c event l s = (r, s') \<Longrightarrow> trace s' = trace s @ [invocation event l]"
  by (cases l) (auto simp: invocation_def split: prod.splits)

lemma run_listeners_step_True:
  "outcome c event l s = (Inr True, s1) \<Longrightarrow>
     run_listeners c event (l # ls) s = run_listeners c event ls s1"
  by simp

lemma run_listeners_step_stop:
  "outcome c event l s = (r, s1) \<Longrightarrow> r \<noteq> Inr True \<Longrightarrow>
     run_listeners c event (l # ls) s = (r, s1)"
  by simp

lemma run_listeners_append:
  "run_listeners c event pre s = (Inr True, s1) \<Longrightarrow>
     run_listeners c event (pre @ ys) s = run_listeners c event ys s1"
proof (induction pre arbitrary: s)
  case Nil
  then show ?case by simp
next
  case (Cons x xs)
  obtain r s2 where one: "outcome c event x s = (r, s2)" by (cases "outcome c event x s")
  show ?case
  proof (cases "r = Inr True")
    case True
    with one Cons.prems have "run_listeners c event xs s2 = (Inr True, s1)" by simp
    from Cons.IH [OF this] one True show ?thesis by simp
  next
    case False
    with one Cons.prems show ?thesis by simp
  qed
qed

lemma run_listeners_True_trace:
  "run_listeners c event ls s = (Inr True, s') \<Longrightarrow>
     trace s' = trace s @ map (invocation event) ls"
proof (induction ls arbitrary: s)
  case Nil
  then show ?case by simp
next
  case (Cons l ls)
  obtain r s1 where one: "outcome c event l s = (r, s1)" by (cases "outcome c event l s")
  show ?case
  proof (cases "r = Inr True")
    case True
    with one Cons.prems have "run_listeners c event ls s1 = (Inr True, s')" by simp
    from Cons.IH [OF this] outcome_trace [OF one] show ?thesis by simp
  next
    case False
    with one Cons.prems show ?thesis by simp
  qed
qed

lemma run_listeners_stop_split:
  "run_listeners c event ls s = (r, s') \<Longrightarrow> r \<noteq> Inr True \<Longrightarrow>
     \<exists>pre l post s1. ls = pre @ l # post \<and> run_listeners c event pre s = (Inr True, s1) \<and>
       outcome c event l s1 = (r, s')"
proof (induction ls arbitrary: s)
  case Nil
  then show ?case by simp
next
  case (Cons l ls)
  obtain r1 s1 where one: "outcome c event l s = (r1, s1)" by (cases "outcome c event l s")
  show ?case
  proof (cases "r1 = Inr True")
    case True
    with one Cons.prems have "run_listeners c event ls s1 = (r, s')" by simp
    from Cons.IH [OF this Cons.prems(2)] obtain pre k post s2 where split:
      "ls = pre @ k # post" "run_listeners c event pre s1 = (Inr True, s2)"
      "outcome c event k s2 = (r, s')" by blast
    with one True have "l # ls = (l # pre) @ k # post \<and>
        run_listeners c event (l # pre) s = (Inr True, s2) \<and> outcome c event k s2 = (r, s')"
      by simp
    then show ?thesis by blast
  next
    case False
    with one Cons.prems have "l # ls = [] @ l # ls \<and>
        run_listeners c event [] s = (Inr True, s) \<and> outcome c event l s = (r, s')"
      by simp
    then show ?thesis by blast
  qed
qed

lemma run_listeners_trace_prefix:
  "\<exists>n\<le>length ls. trace (snd (run_listeners c event ls s)) =
        trace s @ map (invocation event) (take n ls) \<and> (ls \<noteq> [] \<longrightarrow> 0 < n)"
proof (induction ls arbitrary: s)
  case Nil
  then show ?case by simp
next
  case (Cons l ls)
  obtain r s1 where one: "outcome c event l s = (r, s1)" by (cases "outcome c event l s")
  note t1 = outcome_trace [OF one]
  show ?case
  proof (cases "r = Inr True")
    case True
    from Cons.IH [of s1] obtain n where n: "n \<le> length ls"
      "trace (snd (run_listeners c event ls s1)) = trace s1 @ map (invocation event) (take n ls)"
      by blast
    with one True t1 have "Suc n \<le> length (l # ls) \<and>
       trace (snd (run_listeners c event (l # ls) s)) =
         trace s @ map (invocation event) (take (Suc n) (l # ls)) \<and>
       (l # ls \<noteq> [] \<longrightarrow> 0 < Suc n)"
      by simp
    then show ?thesis by blast
  next
    case False
    with one t1 have "Suc 0 \<le> length (l # ls) \<and>
       trace (snd (run_listeners c event (l # ls) s)) =
         trace s @ map (invocation event) (take (Suc 0) (l # ls)) \<and>
       (l # ls \<noteq> [] \<longrightarrow> 0 < Suc 0)"
      by simp
    then show ?thesis by blast
  qed
qed

lemma run_listeners_grows:
  "run_listeners c event ls s = (r, s') \<Longrightarrow>
     \<exists>added. registered (site_of s') t = registered (site_of s) t @ added"
proof (induction ls arbitrary: s)
  case Nil
  then show ?case by simp
next
  case (Cons l ls)
  obtain r1 s1 where one: "outcome c event l s = (r1, s1)" by (cases "outcome c event l s")
  from outcome_grows [OF one, of t] obtain a where
    a: "registered (site_of s1) t = registered (site_of s) t @ a" by blast
  show ?case
  proof (cases "r1 = Inr True")
    case True
    with one Cons.prems have "run_listeners c event ls s1 = (r, s')" by simp
    from Cons.IH [OF this] obtain b where "registered (site_of s') t = registered (site_of s1) t @ b"
      by blast
    with a have "registered (site_of s') t = registered (site_of s) t @ (a @ b)" by simp
    then show ?thesis by blast
  next
    case False
    with one Cons.prems a show ?thesis by auto
  qed
qed

text \<open>The loop reaches the position after \<open>pre\<close> when the listeners of \<open>pre\<close> succeed.\<close>

lemma dispatch_loop_reach:
  assumes "registered (site_of s) (ev_type event) = before @ pre @ rest"
    and "run_listeners c event pre s = (Inr True, s1)"
  shows "dispatch_loop c event (length before) s =
           dispatch_loop c event (length before + length pre) s1 \<and>
         (\<exists>added. registered (site_of s1) (ev_type event) = before @ pre @ rest @ added)"
  using assms
proof (induction pre arbitrary: before s rest)
  case Nil
  then show ?case by simp
next
  case (Cons l pre)
  obtain r s2 where one: "outcome c event l s = (r, s2)" by (cases "outcome c event l s")
  with Cons.prems(2) have r: "r = Inr True" and rest: "run_listeners c event pre s2 = (Inr True, s1)"
    by (auto split: if_splits)
  from Cons.prems(1) have i: "length before < length (registered (site_of s) (ev_type event))"
    and el: "registered (site_of s) (ev_type event) ! length before = l"
    by simp_all
  from one r el have out: "outcome c event (registered (site_of s) (ev_type event) ! length before) s =
      (Inr True, s2)" by simp
  from outcome_grows [OF one, of "ev_type event"] Cons.prems(1) obtain a where
    a: "registered (site_of s2) (ev_type event) = (before @ [l]) @ pre @ (rest @ a)" by auto
  from Cons.IH [OF a rest] obtain b where
    ih: "dispatch_loop c event (length (before @ [l])) s2 =
           dispatch_loop c event (length (before @ [l]) + length pre) s1"
    and b: "registered (site_of s1) (ev_type event) = (before @ [l]) @ pre @ (rest @ a) @ b"
    by blast
  from dispatch_loop_next [OF i out] ih
  have "dispatch_loop c event (length before) s =
      dispatch_loop c event (length before + length (l # pre)) s1" by simp
  moreover from b have "registered (site_of s1) (ev_type event) = before @ (l # pre) @ rest @ (a @ b)"
    by simp
  ultimately show ?case by blast
qed

text \<open>
  A dispatch that returns has run, one after the other and up to the first that does
  not succeed, the listeners that are in the set when it returns.
\<close>

lemma dispatch_loop_run_listeners:
  assumes "dispatch_loop c event i s = Some y"
    and "i \<le> length (registered (site_of s) (ev_type event))"
  shows "(\<exists>added. registered (site_of (snd y)) (ev_type event) =
            registered (site_of s) (ev_type event) @ added) \<and>
         y = run_listeners c event (drop i (registered (site_of (snd y)) (ev_type event))) s"
  using assms
proof (induction rule: dispatch_loop_induct)
  case (stop i s)
  then show ?case by simp
next
  case (halt i s r s')
  from outcome_grows [OF halt(2), of "ev_type event"] obtain a where
    a: "registered (site_of s') (ev_type event) = registered (site_of s) (ev_type event) @ a"
    by blast
  with halt(1) have "drop i (registered (site_of s') (ev_type event)) =
      registered (site_of s) (ev_type event) ! i # drop (Suc i) (registered (site_of s') (ev_type event))"
    by (simp add: Cons_nth_drop_Suc nth_append)
  with halt a show ?case by auto
next
  case (step i s s' y)
  from outcome_grows [OF step(2), of "ev_type event"] obtain a where
    a: "registered (site_of s') (ev_type event) = registered (site_of s) (ev_type event) @ a"
    by blast
  with step(1) have le: "Suc i \<le> length (registered (site_of s') (ev_type event))" by simp
  from step(4) [OF le] obtain b where
    b: "registered (site_of (snd y)) (ev_type event) = registered (site_of s') (ev_type event) @ b"
    and y: "y = run_listeners c event (drop (Suc i) (registered (site_of (snd y)) (ev_type event))) s'"
    by blast
  from a b have ab: "registered (site_of (snd y)) (ev_type event) =
      registered (site_of s) (ev_type event) @ (a @ b)" by simp
  with step(1) have "drop i (registered (site_of (snd y)) (ev_type event)) =
      registered (site_of s) (ev_type event) ! i #
        drop (Suc i) (registered (site_of (snd y)) (ev_type event))"
    by (simp add: Cons_nth_drop_Suc [symmetric] nth_append)
  with step(2) y ab show ?case by auto
qed

text \<open>
  A dispatch returns what the run over the listeners registered at its start gives,
  whenever that run stops before their end or ends with no listener added.
\<close>

lemma dispatchEvent_initial:
  assumes ls: "listeners (site_of s) (ev_type event) = Some ls"
    and run: "run_listeners c event ls s = (r, s')"
    and same: "r = Inr True \<Longrightarrow> registered (site_of s') (ev_type event) = ls"
  shows "dispatchEvent c event s = Some (r, s')"
proof -
  from ls have reg: "registered (site_of s) (ev_type event) = ls" by (simp add: registered_def)
  from ls have d: "dispatchEvent c event s = dispatch_loop c event 0 s"
    by (simp add: dispatchEvent_def)
  show ?thesis
  proof (cases "r = Inr True")
    case True
    from reg have "registered (site_of s) (ev_type event) = [] @ ls @ []" by simp
    from dispatch_loop_reach [OF this, of c s'] run True
    have "dispatch_loop c event 0 s = dispatch_loop c event (length ls) s'" by simp
    also from same [OF True] have "\<dots> = Some (Inr True, s')"
      by (simp add: dispatch_loop_stop)
    finally show ?thesis using d True by simp
  next
    case False
    from run_listeners_stop_split [OF run False] obtain pre l post s1 where split:
      "ls = pre @ l # post" "run_listeners c event pre s = (Inr True, s1)"
      "outcome c event l s1 = (r, s')" by blast
    from reg split(1) have "registered (site_of s) (ev_type event) = [] @ pre @ (l # post)" by simp
    from dispatch_loop_reach [OF this split(2)] obtain added where
      eq: "dispatch_loop c event 0 s = dispatch_loop c event (length pre) s1"
      and r1: "registered (site_of s1) (ev_type event) = pre @ (l # post) @ added" by auto
    from r1 have i: "length pre < length (registered (site_of s1) (ev_type event))"
      and el: "registered (site_of s1) (ev_type event) ! length pre = l" by simp_all
    from split(3) el have "outcome c event (registered (site_of s1) (ev_type event) ! length pre) s1 =
        (r, s')" by simp
    from dispatch_loop_halt [OF i this False] eq d show ?thesis by simp
  qed
qed

lemma dispatchEvent_returns:
  assumes ls: "listeners (site_of s) (ev_type event) = Some ls"
    and ret: "dispatchEvent c event s = Some (r, s')"
  shows "\<exists>added. registered (site_of s') (ev_type event) = ls @ added \<and>
           run_listeners c event (ls @ added) s = (r, s')"
proof -
  from ls have reg: "registered (site_of s) (ev_type event) = ls" by (simp add: registered_def)
  from ls ret have "dispatch_loop c event 0 s = Some (r, s')" by (simp add: dispatchEvent_def)
  from dispatch_loop_run_listeners [OF this] reg show ?thesis by auto
qed

subsection \<open>Dispatch order\<close>

lemma listeners_demo_site: "listeners demo_site t = None"
  by (simp add: demo_site_def constructor_def ignore_def Let_def)

lemma listeners_veto_site:
  "listeners veto_site BeforeBuild = Some [Callable 1, Callable 0, Named ''ok'']"
  by (simp add: veto_site_def addEventListener_def set_add_def Let_def listeners_demo_site)

lemma listeners_pass_site:
  "listeners pass_site AfterBuild = Some [Callable 1, Named ''ok'']"
  by (simp add: pass_site_def addEventListener_def set_add_def Let_def listeners_demo_site)

lemma listeners_live_site: "listeners live_site BeforeBuild = Some [Callable 2]"
  by (simp add: live_site_def addEventListener_def set_add_def Let_def listeners_demo_site)

lemma registered_live: "registered live_site BeforeBuild = [Callable 2]"
  by (simp add: registered_def listeners_live_site)

lemma registered_live_site:
  "registered (addEventListener BeforeBuild (Callable 1) live_site) BeforeBuild =
     [Callable 2, Callable 1]"
  by (simp add: registered_addEventListener set_add_def registered_live)

lemma apply_calls_Nil: "apply_calls [] site = site"
  by (simp add: apply_calls_def)

lemma apply_calls_Cons: "apply_calls (call # calls) site = apply_calls calls (apply_call call site)"
  by (simp add: apply_calls_def)

lemma listener_call_demo:
  "listener_call demo_collaborators f event site w =
     (if f = 0 then Inr (JBool False) else if f = 1 then Inr JUndefined else Inr JOther,
      if f = 4 then [Copy ''assets'' None] else [],
      Suc w)"
  by (simp add: demo_collaborators_def)

lemma scripts_run_demo:
  "scripts_run demo_collaborators name site w = (Inr (name = ''ok''), [], Suc w)"
  by (simp add: demo_collaborators_def)

lemma listener_call_live:
  "listener_call live_collaborators f event site w =
     (if f = 2 then (Inr JOther, [AddEventListener (ev_type event) (Callable 1)], Suc w)
      else listener_call demo_collaborators f event site w)"
  by (simp add: live_collaborators_def)

text \<open>
  Claim C1. The outcome of a single listener is \<open>outcome\<close>, read off the collaborators:
  a script signals failure when the runner returns \<open>false\<close>, a function when it returns
  \<open>false\<close>. Running a list of listeners in its order up to the first one that does not
  succeed is \<open>run_listeners\<close>. Against these:

  \<^item> with no listener set for the type of the event, the dispatch returns \<open>true\<close> and
    changes nothing;
  \<^item> if the listeners of the set before \<open>l\<close> all succeed and \<open>l\<close> signals failure, the
    dispatch returns \<open>false\<close> in the state \<open>l\<close> leaves, and it has invoked the listeners
    before \<open>l\<close> and \<open>l\<close>, in the order of registration, and no listener registered after
    \<open>l\<close>;
  \<^item> if all listeners of the set succeed and none of them registers a listener of this
    type, the dispatch returns \<open>true\<close> and has invoked every listener of the set, in the
    order of registration;
  \<^item> the loop iterates the live set, so a listener that is registered for this type
    while the dispatch runs is invoked by this dispatch too, after the ones registered
    before it: in general a dispatch that returns has run, in their order and up to the
    first that does not succeed, the listeners that are in the set when it returns, which
    are those of the start followed by the added ones. It returns \<open>true\<close> only after
    invoking all of them, and \<open>false\<close> only right after a listener that signals failure.
\<close>

theorem dispatchEvent_order:
  "(listeners (site_of s) (ev_type event) = None \<longrightarrow>
      dispatchEvent c event s = Some (Inr True, s)) \<and>
   (listeners (site_of s) (ev_type event) = Some (pre @ l # post) \<and>
    run_listeners c event pre s = (Inr True, s1) \<and>
    outcome c event l s1 = (Inr False, s2) \<longrightarrow>
      dispatchEvent c event s = Some (Inr False, s2) \<and>
      trace s2 = trace s @ map (invocation event) (pre @ [l])) \<and>
   (listeners (site_of s) (ev_type event) = Some ls \<and>
    run_listeners c event ls s = (Inr True, s3) \<and>
    registered (site_of s3) (ev_type event) = ls \<longrightarrow>
      dispatchEvent c event s = Some (Inr True, s3) \<and>
      trace s3 = trace s @ map (invocation event) ls) \<and>
   (listeners (site_of s) (ev_type event) = Some ls \<and>
    dispatchEvent c event s = Some (r, s') \<longrightarrow>
      (\<exists>added. registered (site_of s') (ev_type event) = ls @ added \<and>
         run_listeners c event (ls @ added) s = (r, s') \<and>
         (\<exists>n\<le>length (ls @ added).
            trace s' = trace s @ map (invocation event) (take n (ls @ added))) \<and>
         (r = Inr True \<longrightarrow> trace s' = trace s @ map (invocation event) (ls @ added)) \<and>
         (r = Inr False \<longrightarrow>
            (\<exists>before k after s4. ls @ added = before @ k # after \<and>
               run_listeners c event before s = (Inr True, s4) \<and>
               outcome c event k s4 = (Inr False, s') \<and>
               trace s' = trace s @ map (invocation event) (before @ [k])))))"
proof (intro conjI impI)
  assume "listeners (site_of s) (ev_type event) = None"
  then show "dispatchEvent c event s = Some (Inr True, s)"
    by (simp add: dispatchEvent_def)
next
  assume a: "listeners (site_of s) (ev_type event) = Some (pre @ l # post) \<and>
    run_listeners c event pre s = (Inr True, s1) \<and> outcome c event l s1 = (Inr False, s2)"
  then have run: "run_listeners c event (pre @ l # post) s = (Inr False, s2)"
    by (simp add: run_listeners_append)
  from a dispatchEvent_initial [OF _ run]
  show "dispatchEvent c event s = Some (Inr False, s2)" by simp
  from a run_listeners_True_trace [of c event pre s s1] outcome_trace [of c event l s1 "Inr False" s2]
  show "trace s2 = trace s @ map (invocation event) (pre @ [l])" by simp
next
  assume a: "listeners (site_of s) (ev_type event) = Some ls \<and>
    run_listeners c event ls s = (Inr True, s3) \<and> registered (site_of s3) (ev_type event) = ls"
  with dispatchEvent_initial [of s event ls c "Inr True" s3]
  show "dispatchEvent c event s = Some (Inr True, s3)" by simp
  from a run_listeners_True_trace [of c event ls s s3]
  show "trace s3 = trace s @ map (invocation event) ls" by simp
next
  assume a: "listeners (site_of s) (ev_type event) = Some ls \<and>
    dispatchEvent c event s = Some (r, s')"
  then obtain added where reg: "registered (site_of s') (ev_type event) = ls @ added"
    and run: "run_listeners c event (ls @ added) s = (r, s')"
    using dispatchEvent_returns [of s event ls c r s'] by blast
  from run_listeners_trace_prefix [of "ls @ added" c event s] run
  have pre: "\<exists>n\<le>length (ls @ added).
      trace s' = trace s @ map (invocation event) (take n (ls @ added))" by auto
  have all: "r = Inr True \<longrightarrow> trace s' = trace s @ map (invocation event) (ls @ added)"
    using run run_listeners_True_trace [of c event "ls @ added" s s'] by blast
  have veto: "r = Inr False \<longrightarrow>
      (\<exists>before k after s4. ls @ added = before @ k # after \<and>
         run_listeners c event before s = (Inr True, s4) \<and>
         outcome c event k s4 = (Inr False, s') \<and>
         trace s' = trace s @ map (invocation event) (before @ [k]))"
  proof
    assume f: "r = Inr False"
    with run_listeners_stop_split [OF run] obtain before k after s4 where split:
      "ls @ added = before @ k # after" "run_listeners c event before s = (Inr True, s4)"
      "outcome c event k s4 = (r, s')" by auto
    from run_listeners_True_trace [OF split(2)] outcome_trace [OF split(3)]
    have "trace s' = trace s @ map (invocation event) (before @ [k])" by simp
    with split f show "\<exists>before k after s4. ls @ added = before @ k # after \<and>
         run_listeners c event before s = (Inr True, s4) \<and>
         outcome c event k s4 = (Inr False, s') \<and>
         trace s' = trace s @ map (invocation event) (before @ [k])" by blast
  qed
  from reg run pre all veto
  show "\<exists>added. registered (site_of s') (ev_type event) = ls @ added \<and>
         run_listeners c event (ls @ added) s = (r, s') \<and>
         (\<exists>n\<le>length (ls @ added).
            trace s' = trace s @ map (invocation event) (take n (ls @ added))) \<and>
         (r = Inr True \<longrightarrow> trace s' = trace s @ map (invocation event) (ls @ added)) \<and>
         (r = Inr False \<longrightarrow>
            (\<exists>before k after s4. ls @ added = before @ k # after \<and>
               run_listeners c event before s = (Inr True, s4) \<and>
               outcome c event k s4 = (Inr False, s') \<and>
               trace s' = trace s @ map (invocation event) (before @ [k])))"
    by blast
qed

theorem dispatchEvent_order_witness:
  "listeners (site_of (start demo_site)) (ev_type beforeBuild) = None \<and>
   dispatchEvent demo_collaborators beforeBuild (start demo_site) =
     Some (Inr True, start demo_site) \<and>
   listeners (site_of (start veto_site)) (ev_type beforeBuild) =
     Some ([Callable 1] @ Callable 0 # [Named ''ok'']) \<and>
   run_listeners demo_collaborators beforeBuild [Callable 1] (start veto_site) =
     (Inr True, \<lparr>site_of = veto_site, world = 1, trace = [Call 1 beforeBuild]\<rparr>) \<and>
   outcome demo_collaborators beforeBuild (Callable 0)
       \<lparr>site_of = veto_site, world = 1, trace = [Call 1 beforeBuild]\<rparr> =
     (Inr False,
      \<lparr>site_of = veto_site, world = 2, trace = [Call 1 beforeBuild, Call 0 beforeBuild]\<rparr>) \<and>
   dispatchEvent demo_collaborators beforeBuild (start veto_site) =
     Some (Inr False,
           \<lparr>site_of = veto_site, world = 2, trace = [Call 1 beforeBuild, Call 0 beforeBuild]\<rparr>) \<and>
   listeners (site_of (start pass_site)) (ev_type afterBuild) =
     Some [Callable 1, Named ''ok''] \<and>
   run_listeners demo_collaborators afterBuild [Callable 1, Named ''ok''] (start pass_site) =
     (Inr True,
      \<lparr>site_of = pass_site, world = 2, trace = [Call 1 afterBuild, RunScript ''ok'']\<rparr>) \<and>
   registered pass_site (ev_type afterBuild) = [Callable 1, Named ''ok''] \<and>
   dispatchEvent demo_collaborators afterBuild (start pass_site) =
     Some (Inr True,
           \<lparr>site_of = pass_site, world = 2, trace = [Call 1 afterBuild, RunScript ''ok'']\<rparr>) \<and>
   listeners (site_of (start live_site)) (ev_type beforeBuild) = Some [Callable 2] \<and>
   dispatchEvent live_collaborators beforeBuild (start live_site) =
     Some (Inr True,
           \<lparr>site_of = addEventListener BeforeBuild (Callable 1) live_site, world = 2,
            trace = [Call 2 beforeBuild, Call 1 beforeBuild]\<rparr>) \<and>
   registered (addEventListener BeforeBuild (Callable 1) live_site) (ev_type beforeBuild) =
     [Callable 2, Callable 1] \<and>
   run_listeners live_collaborators beforeBuild [Callable 2, Callable 1] (start live_site) =
     (Inr True,
      \<lparr>site_of = addEventListener BeforeBuild (Callable 1) live_site, world = 2,
       trace = [Call 2 beforeBuild, Call 1 beforeBuild]\<rparr>)"
proof -
  let ?v1 = "\<lparr>site_of = veto_site, world = 1::nat, trace = [Call 1 beforeBuild]\<rparr>"
  let ?v2 = "\<lparr>site_of = veto_site, world = 2::nat,
              trace = [Call 1 beforeBuild, Call 0 beforeBuild]\<rparr>"
  let ?p2 = "\<lparr>site_of = pass_site, world = 2::nat,
              trace = [Call 1 afterBuild, RunScript ''ok'']\<rparr>"
  let ?l2 = "\<lparr>site_of = addEventListener BeforeBuild (Callable 1) live_site, world = 2::nat,
              trace = [Call 2 beforeBuild, Call 1 beforeBuild]\<rparr>"
  have a1: "listeners (site_of (start demo_site)) (ev_type beforeBuild) = None"
    by (simp add: start_def listeners_demo_site)
  from a1 dispatchEvent_order [of "start demo_site" beforeBuild demo_collaborators]
  have a2: "dispatchEvent demo_collaborators beforeBuild (start demo_site) =
      Some (Inr True, start demo_site)" by blast
  have b1: "listeners (site_of (start veto_site)) (ev_type beforeBuild) =
      Some ([Callable 1] @ Callable 0 # [Named ''ok''])"
    by (simp add: start_def beforeBuild_def listeners_veto_site)
  have b2: "run_listeners demo_collaborators beforeBuild [Callable 1] (start veto_site) =
      (Inr True, ?v1)"
    by (simp add: listener_call_demo apply_calls_Nil start_def)
  have b3: "outcome demo_collaborators beforeBuild (Callable 0) ?v1 = (Inr False, ?v2)"
    by (simp add: listener_call_demo apply_calls_Nil)
  from b1 b2 b3
    dispatchEvent_order [of "start veto_site" beforeBuild demo_collaborators
      "[Callable 1]" "Callable 0" "[Named ''ok'']" ?v1 ?v2]
  have b4: "dispatchEvent demo_collaborators beforeBuild (start veto_site) =
      Some (Inr False, ?v2)" by blast
  have c1: "listeners (site_of (start pass_site)) (ev_type afterBuild) =
      Some [Callable 1, Named ''ok'']"
    by (simp add: start_def afterBuild_def listeners_pass_site)
  have c2: "run_listeners demo_collaborators afterBuild [Callable 1, Named ''ok'']
      (start pass_site) = (Inr True, ?p2)"
    by (simp add: listener_call_demo scripts_run_demo apply_calls_Nil start_def)
  have c3: "registered pass_site (ev_type afterBuild) = [Callable 1, Named ''ok'']"
    by (simp add: registered_def afterBuild_def listeners_pass_site)
  from c1 c2 c3
    dispatchEvent_order [where s = "start pass_site" and event = afterBuild
      and c = demo_collaborators and ls = "[Callable 1, Named ''ok'']" and ?s3.0 = ?p2]
  have c4: "dispatchEvent demo_collaborators afterBuild (start pass_site) =
      Some (Inr True, ?p2)" by simp
  have d1: "listeners (site_of (start live_site)) (ev_type beforeBuild) = Some [Callable 2]"
    by (simp add: start_def beforeBuild_def listeners_live_site)
  have d2: "dispatchEvent live_collaborators beforeBuild (start live_site) =
      Some (Inr True, ?l2)"
  proof -
    let ?l1 = "\<lparr>site_of = addEventListener BeforeBuild (Callable 1) live_site, world = 1::nat,
                trace = [Call 2 beforeBuild]\<rparr>"
    have "dispatchEvent live_collaborators beforeBuild (start live_site) =
        dispatch_loop live_collaborators beforeBuild 0 (start live_site)"
      using d1 by (simp add: dispatchEvent_def)
    also have "\<dots> = dispatch_loop live_collaborators beforeBuild (Suc 0) ?l1"
      by (rule dispatch_loop_next)
         (simp_all add: start_def beforeBuild_def registered_live listener_call_live
            apply_calls_Nil apply_calls_Cons)
    also have "\<dots> = dispatch_loop live_collaborators beforeBuild (Suc (Suc 0)) ?l2"
      by (rule dispatch_loop_next)
         (simp_all add: beforeBuild_def registered_live_site [simplified] listener_call_live
            listener_call_demo apply_calls_Nil)
    also have "\<dots> = Some (Inr True, ?l2)"
      by (rule dispatch_loop_stop) (simp add: beforeBuild_def registered_live_site [simplified])
    finally show ?thesis .
  qed
  have d3: "registered (addEventListener BeforeBuild (Callable 1) live_site)
      (ev_type beforeBuild) = [Callable 2, Callable 1]"
    by (simp add: beforeBuild_def registered_live_site [simplified])
  from d1 d2
    dispatchEvent_order [where s = "start live_site" and event = beforeBuild
      and c = live_collaborators and ls = "[Callable 2]" and r = "Inr True" and s' = ?l2]
  obtain added where
    "registered (site_of ?l2) (ev_type beforeBuild) = [Callable 2] @ added"
    "run_listeners live_collaborators beforeBuild ([Callable 2] @ added) (start live_site) =
       (Inr True, ?l2)" by blast
  with d3 have d4: "run_listeners live_collaborators beforeBuild [Callable 2, Callable 1]
      (start live_site) = (Inr True, ?l2)" by simp
  from a1 a2 b1 b2 b3 b4 c1 c2 c3 c4 d1 d2 d3 d4 show ?thesis by blast
qed

subsection \<open>The outcome of a listener\<close>

lemma listeners_constructor: "listeners (constructor cwd opts) t = None"
  by (simp add: constructor_def ignore_def Let_def)

lemma listeners_build_site:
  "listeners build_site BeforeBuild = Some [Callable 4, Callable 0, Named ''ok'']"
  "listeners build_site BeforeSave = Some [Named ''fail'']"
  "listeners build_site AfterBuild = Some [Callable 1, Named ''ok'']"
  "listeners build_site BeforeUpdate = Some [Callable 0]"
  "listeners build_site AfterUpdate = Some [Named ''ok'']"
  by (simp_all add: build_site_def addEventListener_def set_add_def Let_def listeners_constructor)

lemma listeners_undefined_site: "listeners undefined_site BeforeSave = Some [Callable 1]"
  by (simp add: undefined_site_def addEventListener_def set_add_def Let_def listeners_demo_site)

text \<open>
  Claim C7. When a set is registered, the dispatch is the loop from its first listener.
  At a listener that is a name, the loop runs the script of that name through the
  runner, \<^verbatim>\<open>this.run(listener)\<close>, and the boolean the runner returns is the outcome: on
  \<open>true\<close> the loop goes on with the next listener, on \<open>false\<close> the dispatch returns
  \<open>false\<close>. At a listener that is a function, the dispatch returns \<open>false\<close> exactly when
  the value returned is \<^verbatim>\<open>false\<close>, and goes on with the next listener on every other
  value. In particular a single listener that returns \<^verbatim>\<open>undefined\<close> makes the dispatch
  return \<open>true\<close>.
\<close>

theorem listener_outcome:
  "(listeners (site_of s) (ev_type event) = Some ls \<longrightarrow>
      dispatchEvent c event s = dispatch_loop c event 0 s) \<and>
   (i < length (registered (site_of s) (ev_type event)) \<and>
    registered (site_of s) (ev_type event) ! i = Named name \<and>
    scripts_run c name (site_of s) (world s) = (Inr success, calls, w) \<longrightarrow>
      run c name s =
        (Inr success, \<lparr>site_of = apply_calls calls (site_of s), world = w,
                        trace = trace s @ [RunScript name]\<rparr>) \<and>
      dispatch_loop c event i s =
        (if success
         then dispatch_loop c event (Suc i)
                \<lparr>site_of = apply_calls calls (site_of s), world = w,
                 trace = trace s @ [RunScript name]\<rparr>
         else Some (Inr False, \<lparr>site_of = apply_calls calls (site_of s), world = w,
                                trace = trace s @ [RunScript name]\<rparr>))) \<and>
   (j < length (registered (site_of s) (ev_type event)) \<and>
    registered (site_of s) (ev_type event) ! j = Callable f \<and>
    listener_call c f event (site_of s) (world s) = (Inr v, calls', w') \<longrightarrow>
      dispatch_loop c event j s =
        (if v = JBool False
         then Some (Inr False, \<lparr>site_of = apply_calls calls' (site_of s), world = w',
                                trace = trace s @ [Call f event]\<rparr>)
         else dispatch_loop c event (Suc j)
                \<lparr>site_of = apply_calls calls' (site_of s), world = w',
                 trace = trace s @ [Call f event]\<rparr>)) \<and>
   (listeners (site_of s) (ev_type event) = Some [Callable g] \<and>
    listener_call c g event (site_of s) (world s) = (Inr JUndefined, calls'', w'') \<and>
    registered (apply_calls calls'' (site_of s)) (ev_type event) = [Callable g] \<longrightarrow>
      dispatchEvent c event s =
        Some (Inr True, \<lparr>site_of = apply_calls calls'' (site_of s), world = w'',
                         trace = trace s @ [Call g event]\<rparr>))"
proof (intro conjI impI)
  assume "listeners (site_of s) (ev_type event) = Some ls"
  then show "dispatchEvent c event s = dispatch_loop c event 0 s"
    by (simp add: dispatchEvent_def)
next
  assume a: "i < length (registered (site_of s) (ev_type event)) \<and>
    registered (site_of s) (ev_type event) ! i = Named name \<and>
    scripts_run c name (site_of s) (world s) = (Inr success, calls, w)"
  then show "run c name s =
        (Inr success, \<lparr>site_of = apply_calls calls (site_of s), world = w,
                        trace = trace s @ [RunScript name]\<rparr>)"
    by (simp add: run_def perform_on_site_def)
  from a show "dispatch_loop c event i s =
        (if success
         then dispatch_loop c event (Suc i)
                \<lparr>site_of = apply_calls calls (site_of s), world = w,
                 trace = trace s @ [RunScript name]\<rparr>
         else Some (Inr False, \<lparr>site_of = apply_calls calls (site_of s), world = w,
                                trace = trace s @ [RunScript name]\<rparr>))"
    by (subst dispatch_loop.simps) (simp add: run_def perform_on_site_def)
next
  assume "j < length (registered (site_of s) (ev_type event)) \<and>
    registered (site_of s) (ev_type event) ! j = Callable f \<and>
    listener_call c f event (site_of s) (world s) = (Inr v, calls', w')"
  then show "dispatch_loop c event j s =
        (if v = JBool False
         then Some (Inr False, \<lparr>site_of = apply_calls calls' (site_of s), world = w',
                                trace = trace s @ [Call f event]\<rparr>)
         else dispatch_loop c event (Suc j)
                \<lparr>site_of = apply_calls calls' (site_of s), world = w',
                 trace = trace s @ [Call f event]\<rparr>)"
    by (subst dispatch_loop.simps) (simp add: perform_on_site_def)
next
  assume a: "listeners (site_of s) (ev_type event) = Some [Callable g] \<and>
    listener_call c g event (site_of s) (world s) = (Inr JUndefined, calls'', w'') \<and>
    registered (apply_calls calls'' (site_of s)) (ev_type event) = [Callable g]"
  let ?s1 = "\<lparr>site_of = apply_calls calls'' (site_of s), world = w'',
              trace = trace s @ [Call g event]\<rparr>"
  from a have "run_listeners c event [Callable g] s = (Inr True, ?s1)" by simp
  from dispatchEvent_initial [OF _ this] a
  show "dispatchEvent c event s = Some (Inr True, ?s1)" by simp
qed

theorem listener_outcome_witness:
  "dispatchEvent demo_collaborators beforeBuild (start veto_site) =
     dispatch_loop demo_collaborators beforeBuild 0 (start veto_site) \<and>
   scripts_run demo_collaborators ''ok'' pass_site 1 = (Inr True, [], 2) \<and>
   run demo_collaborators ''ok'' \<lparr>site_of = pass_site, world = 1, trace = [Call 1 afterBuild]\<rparr> =
     (Inr True,
      \<lparr>site_of = pass_site, world = 2, trace = [Call 1 afterBuild, RunScript ''ok'']\<rparr>) \<and>
   dispatch_loop demo_collaborators afterBuild 1
       \<lparr>site_of = pass_site, world = 1, trace = [Call 1 afterBuild]\<rparr> =
     dispatch_loop demo_collaborators afterBuild 2
       \<lparr>site_of = pass_site, world = 2, trace = [Call 1 afterBuild, RunScript ''ok'']\<rparr> \<and>
   scripts_run demo_collaborators ''fail'' build_site 0 = (Inr False, [], 1) \<and>
   dispatch_loop demo_collaborators beforeSave 0 (start build_site) =
     Some (Inr False, \<lparr>site_of = build_site, world = 1, trace = [RunScript ''fail'']\<rparr>) \<and>
   listener_call demo_collaborators 0 beforeBuild veto_site 1 = (Inr (JBool False), [], 2) \<and>
   dispatch_loop demo_collaborators beforeBuild 1
       \<lparr>site_of = veto_site, world = 1, trace = [Call 1 beforeBuild]\<rparr> =
     Some (Inr False,
           \<lparr>site_of = veto_site, world = 2, trace = [Call 1 beforeBuild, Call 0 beforeBuild]\<rparr>) \<and>
   listener_call demo_collaborators 1 beforeBuild veto_site 0 = (Inr JUndefined, [], 1) \<and>
   dispatch_loop demo_collaborators beforeBuild 0 (start veto_site) =
     dispatch_loop demo_collaborators beforeBuild 1
       \<lparr>site_of = veto_site, world = 1, trace = [Call 1 beforeBuild]\<rparr> \<and>
   listener_call demo_collaborators 1 beforeSave undefined_site 0 = (Inr JUndefined, [], 1) \<and>
   dispatchEvent demo_collaborators beforeSave (start undefined_site) =
     Some (Inr True, \<lparr>site_of = undefined_site, world = 1, trace = [Call 1 beforeSave]\<rparr>)"
proof -
  let ?p1 = "\<lparr>site_of = pass_site, world = 1::nat, trace = [Call 1 afterBuild]\<rparr>"
  let ?v1 = "\<lparr>site_of = veto_site, world = 1::nat, trace = [Call 1 beforeBuild]\<rparr>"
  have reg_pass: "registered pass_site AfterBuild = [Callable 1, Named ''ok'']"
    by (simp add: registered_def listeners_pass_site)
  have reg_veto: "registered veto_site BeforeBuild = [Callable 1, Callable 0, Named ''ok'']"
    by (simp add: registered_def listeners_veto_site)
  have reg_build: "registered build_site BeforeSave = [Named ''fail'']"
    by (simp add: registered_def listeners_build_site)
  have a: "listeners (site_of (start veto_site)) (ev_type beforeBuild) =
      Some [Callable 1, Callable 0, Named ''ok'']"
    by (simp add: start_def beforeBuild_def listeners_veto_site)
  from a listener_outcome [where s = "start veto_site" and event = beforeBuild
      and c = demo_collaborators and ls = "[Callable 1, Callable 0, Named ''ok'']"]
  have r1: "dispatchEvent demo_collaborators beforeBuild (start veto_site) =
      dispatch_loop demo_collaborators beforeBuild 0 (start veto_site)" by blast
  have b1: "1 < length (registered (site_of ?p1) (ev_type afterBuild))"
    "registered (site_of ?p1) (ev_type afterBuild) ! 1 = Named ''ok''"
    by (simp_all add: afterBuild_def reg_pass)
  have b2: "scripts_run demo_collaborators ''ok'' (site_of ?p1) (world ?p1) = (Inr True, [], 2)"
    by (simp add: scripts_run_demo)
  from b1 b2 listener_outcome [where s = ?p1 and event = afterBuild
      and c = demo_collaborators and i = 1 and name = "''ok''" and success = True
      and calls = "[]" and w = 2]
  have r2: "run demo_collaborators ''ok'' ?p1 =
      (Inr True, \<lparr>site_of = apply_calls [] (site_of ?p1), world = 2,
                  trace = trace ?p1 @ [RunScript ''ok'']\<rparr>)"
    and r3: "dispatch_loop demo_collaborators afterBuild 1 ?p1 =
      (if True
       then dispatch_loop demo_collaborators afterBuild (Suc 1)
              \<lparr>site_of = apply_calls [] (site_of ?p1), world = 2,
               trace = trace ?p1 @ [RunScript ''ok'']\<rparr>
       else Some (Inr False, \<lparr>site_of = apply_calls [] (site_of ?p1), world = 2,
                              trace = trace ?p1 @ [RunScript ''ok'']\<rparr>))"
    by blast+
  have c1: "0 < length (registered (site_of (start build_site)) (ev_type beforeSave))"
    "registered (site_of (start build_site)) (ev_type beforeSave) ! 0 = Named ''fail''"
    by (simp_all add: start_def beforeSave_def reg_build)
  have c2: "scripts_run demo_collaborators ''fail'' (site_of (start build_site))
      (world (start build_site)) = (Inr False, [], 1)"
    by (simp add: scripts_run_demo start_def)
  from c1 c2 listener_outcome [where s = "start build_site" and event = beforeSave
      and c = demo_collaborators and i = 0 and name = "''fail''" and success = False
      and calls = "[]" and w = 1]
  have r4: "dispatch_loop demo_collaborators beforeSave 0 (start build_site) =
      (if False
       then dispatch_loop demo_collaborators beforeSave (Suc 0)
              \<lparr>site_of = apply_calls [] (site_of (start build_site)), world = 1,
               trace = trace (start build_site) @ [RunScript ''fail'']\<rparr>
       else Some (Inr False, \<lparr>site_of = apply_calls [] (site_of (start build_site)), world = 1,
                              trace = trace (start build_site) @ [RunScript ''fail'']\<rparr>))"
    by blast
  have d1: "1 < length (registered (site_of ?v1) (ev_type beforeBuild))"
    "registered (site_of ?v1) (ev_type beforeBuild) ! 1 = Callable 0"
    by (simp_all add: beforeBuild_def reg_veto)
  have d2: "listener_call demo_collaborators 0 beforeBuild (site_of ?v1) (world ?v1) =
      (Inr (JBool False), [], 2)"
    by (simp add: listener_call_demo)
  from d1 d2 listener_outcome [where s = ?v1 and event = beforeBuild
      and c = demo_collaborators and j = 1 and f = 0 and v = "JBool False"
      and calls' = "[]" and w' = 2]
  have r5: "dispatch_loop demo_collaborators beforeBuild 1 ?v1 =
      (if JBool False = JBool False
       then Some (Inr False, \<lparr>site_of = apply_calls [] (site_of ?v1), world = 2,
                              trace = trace ?v1 @ [Call 0 beforeBuild]\<rparr>)
       else dispatch_loop demo_collaborators beforeBuild (Suc 1)
              \<lparr>site_of = apply_calls [] (site_of ?v1), world = 2,
               trace = trace ?v1 @ [Call 0 beforeBuild]\<rparr>)"
    by blast
  have e1: "0 < length (registered (site_of (start veto_site)) (ev_type beforeBuild))"
    "registered (site_of (start veto_site)) (ev_type beforeBuild) ! 0 = Callable 1"
    by (simp_all add: start_def beforeBuild_def reg_veto)
  have e2: "listener_call demo_collaborators 1 beforeBuild (site_of (start veto_site))
      (world (start veto_site)) = (Inr JUndefined, [], 1)"
    by (simp add: listener_call_demo start_def)
  from e1 e2 listener_outcome [where s = "start veto_site" and event = beforeBuild
      and c = demo_collaborators and j = 0 and f = 1 and v = JUndefined
      and calls' = "[]" and w' = 1]
  have r6: "dispatch_loop demo_collaborators beforeBuild 0 (start veto_site) =
      (if JUndefined = JBool False
       then Some (Inr False, \<lparr>site_of = apply_calls [] (site_of (start veto_site)), world = 1,
                              trace = trace (start veto_site) @ [Call 1 beforeBuild]\<rparr>)
       else dispatch_loop demo_collaborators beforeBuild (Suc 0)
              \<lparr>site_of = apply_calls [] (site_of (start veto_site)), world = 1,
               trace = trace (start veto_site) @ [Call 1 beforeBuild]\<rparr>)"
    by blast
  have f1: "listeners (site_of (start undefined_site)) (ev_type beforeSave) = Some [Callable 1]"
    by (simp add: start_def beforeSave_def listeners_undefined_site)
  have f2: "listener_call demo_collaborators 1 beforeSave (site_of (start undefined_site))
      (world (start undefined_site)) = (Inr JUndefined, [], 1)"
    by (simp add: listener_call_demo start_def)
  have f3: "registered (apply_calls [] (site_of (start undefined_site))) (ev_type beforeSave) =
      [Callable 1]"
    by (simp add: apply_calls_Nil start_def beforeSave_def registered_def listeners_undefined_site)
  from f1 f2 f3 listener_outcome [where s = "start undefined_site" and event = beforeSave
      and c = demo_collaborators and g = 1 and calls'' = "[]" and w'' = 1]
  have r7: "dispatchEvent demo_collaborators beforeSave (start undefined_site) =
      Some (Inr True, \<lparr>site_of = apply_calls [] (site_of (start undefined_site)), world = 1,
                       trace = trace (start undefined_site) @ [Call 1 beforeSave]\<rparr>)"
    by blast
  have s2: "scripts_run demo_collaborators ''ok'' pass_site 1 = (Inr True, [], 2)"
    by (simp add: scripts_run_demo)
  from r2 have t2: "run demo_collaborators ''ok'' ?p1 =
      (Inr True,
       \<lparr>site_of = pass_site, world = 2, trace = [Call 1 afterBuild, RunScript ''ok'']\<rparr>)"
    by (simp add: apply_calls_Nil)
  from r3 have t3: "dispatch_loop demo_collaborators afterBuild 1 ?p1 =
      dispatch_loop demo_collaborators afterBuild 2
        \<lparr>site_of = pass_site, world = 2, trace = [Call 1 afterBuild, RunScript ''ok'']\<rparr>"
    by (simp add: apply_calls_Nil numeral_2_eq_2)
  have s4: "scripts_run demo_collaborators ''fail'' build_site 0 = (Inr False, [], 1)"
    by (simp add: scripts_run_demo)
  from r4 have t4: "dispatch_loop demo_collaborators beforeSave 0 (start build_site) =
      Some (Inr False, \<lparr>site_of = build_site, world = 1, trace = [RunScript ''fail'']\<rparr>)"
    by (simp add: apply_calls_Nil start_def)
  have s5: "listener_call demo_collaborators 0 beforeBuild veto_site 1 =
      (Inr (JBool False), [], 2)"
    by (simp add: listener_call_demo)
  from r5 have t5: "dispatch_loop demo_collaborators beforeBuild 1 ?v1 =
      Some (Inr False,
            \<lparr>site_of = veto_site, world = 2,
             trace = [Call 1 beforeBuild, Call 0 beforeBuild]\<rparr>)"
    by (simp add: apply_calls_Nil)
  have s6: "listener_call demo_collaborators 1 beforeBuild veto_site 0 = (Inr JUndefined, [], 1)"
    by (simp add: listener_call_demo)
  from r6 have t6: "dispatch_loop demo_collaborators beforeBuild 0 (start veto_site) =
      dispatch_loop demo_collaborators beforeBuild 1 ?v1"
    by (simp add: apply_calls_Nil start_def)
  have s7: "listener_call demo_collaborators 1 beforeSave undefined_site 0 =
      (Inr JUndefined, [], 1)"
    by (simp add: listener_call_demo)
  from r7 have t7: "dispatchEvent demo_collaborators beforeSave (start undefined_site) =
      Some (Inr True, \<lparr>site_of = undefined_site, world = 1, trace = [Call 1 beforeSave]\<rparr>)"
    by (simp add: apply_calls_Nil start_def)
  from r1 s2 t2 t3 s4 t4 s5 t5 s6 t6 s7 t7 show ?thesis by (intro conjI)
qed

subsection \<open>Registration\<close>
































section \<open>Properties of the update classification\<close>

lemma update_file_classify:
  "update_file c rt file s = class_action c file (classify rt (source (site_of s)) file) s"
  by (simp add: update_file_def class_action_def classify_def Let_def succeed_def
      split: option.splits)

lemma startsWith_append: "startsWith s p \<longleftrightarrow> (\<exists>r. s = p @ r)"
proof
  assume "startsWith s p"
  then have "s = p @ drop (length p) s"
    by (metis append_take_drop_id startsWith_def)
  then show "\<exists>r. s = p @ r" ..
next
  assume "\<exists>r. s = p @ r"
  then show "startsWith s p" by (auto simp: startsWith_def)
qed





lemma source_classify_site:
  "source classify_site =
     \<lparr>staticFiles = [(''/_private'', ''/private'')], ignored = [''/_site'', ''/_private''],
      source_pages = []\<rparr>"
  by code_simp

text \<open>
  Claim C2. For every changed path, the body of the update loop does what the class of
  the path asks for, and the class is exactly one of \<open>Static\<close>, \<open>Ignored\<close>,
  \<open>DataReload\<close>, \<open>HiddenSkip\<close> and \<open>GenericReload\<close>, the earlier one in this order
  winning: a path that matches a static mapping is copied whatever else holds of it; an
  ignored path that matches no mapping is left alone; then come the data pattern, the
  hidden segments and, last, the reload of the single file.
\<close>

theorem classification_order:
  "update_file c rt file s = class_action c file (classify rt (source (site_of s)) file) s \<and>
   (isStatic (source (site_of s)) file = Some (from, to) \<longrightarrow>
      classify rt (source (site_of s)) file = Static from to \<and>
      update_file c rt file s =
        perform (CopyFile file (join [to, drop (length from) file]))
          (emitter_copyFile c file (join [to, drop (length from) file])) s) \<and>
   (isStatic (source (site_of s)) file = None \<and> isIgnored (source (site_of s)) file \<longrightarrow>
      classify rt (source (site_of s)) file = Ignored \<and>
      update_file c rt file s = succeed () s) \<and>
   (isStatic (source (site_of s)) file = None \<and> \<not> isIgnored (source (site_of s)) file \<and>
    data_pattern (normalizePath rt file) \<longrightarrow>
      classify rt (source (site_of s)) file = DataReload \<and>
      update_file c rt file s = loadFile c file s) \<and>
   (isStatic (source (site_of s)) file = None \<and> \<not> isIgnored (source (site_of s)) file \<and>
    \<not> data_pattern (normalizePath rt file) \<and>
    (includes_str (normalizePath rt file) ''/_'' \<or> includes_str (normalizePath rt file) ''/.'') \<longrightarrow>
      classify rt (source (site_of s)) file = HiddenSkip \<and>
      update_file c rt file s = succeed () s) \<and>
   (isStatic (source (site_of s)) file = None \<and> \<not> isIgnored (source (site_of s)) file \<and>
    \<not> data_pattern (normalizePath rt file) \<and>
    \<not> includes_str (normalizePath rt file) ''/_'' \<and>
    \<not> includes_str (normalizePath rt file) ''/.'' \<longrightarrow>
      classify rt (source (site_of s)) file = GenericReload \<and>
      update_file c rt file s = loadFile c file s)"
  by (simp add: update_file_classify class_action_def classify_def)

theorem classification_order_witness:
  "isStatic (source (site_of (start classify_site))) ''/_private/.secret/x.png'' =
     Some (''/_private'', ''/private'') \<and>
   isIgnored (source classify_site) ''/_private/.secret/x.png'' \<and>
   includes_str (normalizePath demo_runtime ''/_private/.secret/x.png'') ''/.'' \<and>
   classify demo_runtime (source classify_site) ''/_private/.secret/x.png'' =
     Static ''/_private'' ''/private'' \<and>
   update_file demo_collaborators demo_runtime ''/_private/.secret/x.png'' (start classify_site) =
     (Inr (),
      \<lparr>site_of = classify_site, world = 1,
       trace = [CopyFile ''/_private/.secret/x.png'' ''/private/.secret/x.png'']\<rparr>)"
proof -
  have a: "isStatic (source (site_of (start classify_site))) ''/_private/.secret/x.png'' =
      Some (''/_private'', ''/private'')"
    by (simp add: start_def source_classify_site isStatic_def startsWith_def)
  have b: "isIgnored (source classify_site) ''/_private/.secret/x.png''"
    by (simp add: source_classify_site isIgnored_def startsWith_def)
  have c: "includes_str (normalizePath demo_runtime ''/_private/.secret/x.png'') ''/.''"
    by (simp add: demo_runtime_def startsWith_def)
  have d: "join [''/private'', drop (length ''/_private'') ''/_private/.secret/x.png''] =
      ''/private/.secret/x.png''"
    by code_simp
  from a classification_order [of demo_collaborators demo_runtime "''/_private/.secret/x.png''"
      "start classify_site" "''/_private''" "''/private''"]
  have cl: "classify demo_runtime (source (site_of (start classify_site)))
       ''/_private/.secret/x.png'' = Static ''/_private'' ''/private''"
    and u: "update_file demo_collaborators demo_runtime ''/_private/.secret/x.png''
       (start classify_site) =
       perform (CopyFile ''/_private/.secret/x.png''
                  (join [''/private'', drop (length ''/_private'') ''/_private/.secret/x.png'']))
         (emitter_copyFile demo_collaborators ''/_private/.secret/x.png''
            (join [''/private'', drop (length ''/_private'') ''/_private/.secret/x.png'']))
         (start classify_site)"
    by blast+
  from cl have cl': "classify demo_runtime (source classify_site) ''/_private/.secret/x.png'' =
      Static ''/_private'' ''/private''"
    by (simp add: start_def)
  have e: "update_file demo_collaborators demo_runtime ''/_private/.secret/x.png''
      (start classify_site) =
     (Inr (),
      \<lparr>site_of = classify_site, world = 1,
       trace = [CopyFile ''/_private/.secret/x.png'' ''/private/.secret/x.png'']\<rparr>)"
    by (simp only: u d) (simp add: perform_def demo_collaborators_def start_def)
  from a b c cl' e show ?thesis by (intro conjI)
qed

lemma source_demo_site:
  "source demo_site = \<lparr>staticFiles = [], ignored = [''/_site''], source_pages = []\<rparr>"
  by code_simp


lemma split_on_nonempty: "split_on c p \<noteq> []"
  by (induction p) (auto split: list.splits)








section \<open>Properties of the configuration and of URL resolution\<close>

lemma options_ignore: "options (ignore paths site) = options site"
  by (simp add: ignore_def)

lemma src_ignore: "src (ignore paths site) path = src site path"
  by (simp add: src_def options_ignore)

lemma dest_ignore: "dest (ignore paths site) path = dest site path"
  by (simp add: dest_def options_ignore)


lemma constructor_ignored:
  "ignored (source (constructor cwd opts)) =
     (if startsWith (dest (constructor cwd opts) []) (src (constructor cwd opts) [])
      then [join [''/'', opt_dest (options (constructor cwd opts))]]
      else [])"
proof -
  let ?site = "\<lparr>options = merge (defaults cwd) opts, source = new_source,
                 listeners = Map.empty, pages = []\<rparr>"
  show ?thesis
  proof (cases "startsWith (dest ?site []) (src ?site [])")
    case True
    then have c: "constructor cwd opts = ignore [opt_dest (options ?site)] ?site"
      by (simp add: constructor_def Let_def)
    have "ignored (source (ignore [opt_dest (options ?site)] ?site)) =
        [join [''/'', opt_dest (options ?site)]]"
      by (simp add: ignore_def addIgnoredPath_def set_add_def new_source_def)
    with True show ?thesis
      by (simp add: c src_ignore dest_ignore options_ignore)
  next
    case False
    then have c: "constructor cwd opts = ?site"
      by (simp add: constructor_def Let_def)
    with False show ?thesis by (simp add: new_source_def)
  qed
qed

text \<open>
  Claim C9. After construction the options are the defaults overlaid with the user's
  options, and the ignored paths are the one path \<^verbatim>\<open>join("/", options.dest)\<close> when the
  resolved destination starts with the resolved source, and none otherwise. That path
  is the destination as given in the options, from the working directory; the paths of
  the source are paths from the source root. The two agree when the source root is the
  working directory, as with the defaults, where \<^verbatim>\<open>/_site\<close> is ignored and with it every
  file below the destination. They differ on the site \<open>nested_site\<close>, with the source
  \<^verbatim>\<open>src\<close> and the destination \<^verbatim>\<open>src/out\<close>: the resolved destination \<^verbatim>\<open>/home/u/src/out\<close>
  starts with the resolved source \<^verbatim>\<open>/home/u/src\<close>, the one ignored path is \<^verbatim>\<open>/src/out\<close>,
  and the destination directory, which is \<^verbatim>\<open>/out\<close> from the source root, is no member
  of the ignored paths; neither it nor the emitted file \<^verbatim>\<open>/out/index.html\<close> is ignored.
  So the claim does not hold of the code: nothing keeps a full load from reading the
  emitted output again.
\<close>

theorem dest_inside_src_not_ignored:
  "options (constructor cwd opts) = merge (defaults cwd) opts \<and>
   ignored (source (constructor cwd opts)) =
     (if startsWith (dest (constructor cwd opts) []) (src (constructor cwd opts) [])
      then [join [''/'', opt_dest (merge (defaults cwd) opts)]]
      else []) \<and>
   startsWith (dest nested_site []) (src nested_site []) \<and>
   src nested_site [] = ''/home/u/src'' \<and>
   dest nested_site [] = ''/home/u/src/out'' \<and>
   ignored (source nested_site) = [''/src/out''] \<and>
   source_path nested_site (dest nested_site []) = ''/out'' \<and>
   ''/out'' \<notin> set (ignored (source nested_site)) \<and>
   \<not> isIgnored (source nested_site) ''/out'' \<and>
   source_path nested_site (dest nested_site [''index.html'']) = ''/out/index.html'' \<and>
   \<not> isIgnored (source nested_site) ''/out/index.html'' \<and>
   startsWith (dest demo_site []) (src demo_site []) \<and>
   ignored (source demo_site) = [''/_site''] \<and>
   source_path demo_site (dest demo_site []) = ''/_site'' \<and>
   source_path demo_site (dest demo_site [''index.html'']) = ''/_site/index.html'' \<and>
   isIgnored (source demo_site) ''/_site/index.html''"
proof -
  have o: "options (constructor cwd opts) = merge (defaults cwd) opts"
    by (simp add: constructor_def Let_def options_ignore)
  from constructor_ignored [of cwd opts] o
  have g: "ignored (source (constructor cwd opts)) =
     (if startsWith (dest (constructor cwd opts) []) (src (constructor cwd opts) [])
      then [join [''/'', opt_dest (merge (defaults cwd) opts)]]
      else [])" by simp
  have a: "startsWith (dest nested_site []) (src nested_site [])" by code_simp
  have b: "src nested_site [] = ''/home/u/src''" by code_simp
  have c: "dest nested_site [] = ''/home/u/src/out''" by code_simp
  have d: "ignored (source nested_site) = [''/src/out'']" by code_simp
  have e: "source_path nested_site (dest nested_site []) = ''/out''" by code_simp
  from d have f: "''/out'' \<notin> set (ignored (source nested_site))" by simp
  from d have h: "\<not> isIgnored (source nested_site) ''/out''"
    by (simp add: isIgnored_def startsWith_def)
  have i: "source_path nested_site (dest nested_site [''index.html'']) = ''/out/index.html''"
    by code_simp
  from d have j: "\<not> isIgnored (source nested_site) ''/out/index.html''"
    by (simp add: isIgnored_def startsWith_def)
  have k: "startsWith (dest demo_site []) (src demo_site [])" by code_simp
  have l: "ignored (source demo_site) = [''/_site'']" by (simp add: source_demo_site)
  have m: "source_path demo_site (dest demo_site []) = ''/_site''" by code_simp
  have n: "source_path demo_site (dest demo_site [''index.html'']) = ''/_site/index.html''"
    by code_simp
  from l have p: "isIgnored (source demo_site) ''/_site/index.html''"
    by (simp add: isIgnored_def startsWith_def)
  from o g a b c d e f h i j k l m n p show ?thesis by (intro conjI)
qed

lemma join_split_on: "join_segments (split_on (CHR ''/'') p) = p"
proof (induction p)
  case Nil
  then show ?case by simp
next
  case (Cons x xs)
  obtain s ss where sp: "split_on (CHR ''/'') xs = s # ss"
    using split_on_nonempty [of "CHR ''/''" xs] by (cases "split_on (CHR ''/'') xs") auto
  with Cons show ?case by (cases ss) auto
qed

lemma normalize_segments_plain:
  "list_all (\<lambda>seg. seg \<noteq> [] \<and> seg \<noteq> ''.'' \<and> seg \<noteq> ''..'') segs \<Longrightarrow>
     normalize_segments allow res segs = res @ segs"
  by (induction segs arbitrary: res) auto

lemma split_on_single_empty: "split_on c p = [[]] \<Longrightarrow> p = []"
  using split_on_nonempty [of c "tl p"] by (cases p) (auto split: if_splits list.splits)

lemma last_split_on_slash:
  "p \<noteq> [] \<Longrightarrow> last p = c \<Longrightarrow> last (split_on c p) = []"
proof (induction p)
  case Nil
  then show ?case by simp
next
  case (Cons x xs)
  show ?case
  proof (cases "xs = []")
    case True
    with Cons.prems show ?thesis by simp
  next
    case False
    with Cons have "last (split_on c xs) = []" by simp
    then show ?thesis
      using split_on_nonempty [of c xs] False
      by (auto split: list.splits dest: split_on_single_empty)
  qed
qed

lemma plain_relative_facts:
  assumes "plain_relative p"
  shows "p \<noteq> []" and "last p \<noteq> CHR ''/''"
proof -
  from assms show ne: "p \<noteq> []" by (auto simp: plain_relative_def)
  show "last p \<noteq> CHR ''/''"
  proof
    assume "last p = CHR ''/''"
    from last_split_on_slash [OF ne this] have "[] \<in> set (split_on (CHR ''/'') p)"
      using split_on_nonempty [of "CHR ''/''" p] by (metis last_in_set)
    with assms show False by (auto simp: plain_relative_def list_all_iff)
  qed
qed

lemma join_root_plain:
  assumes "plain_relative p"
  shows "join [''/'', p] = ''/'' @ p"
proof -
  note f = plain_relative_facts [OF assms]
  have "normalizeString (''//'' @ p) False = p"
    using assms
    by (simp add: normalizeString_def plain_relative_def normalize_segments_plain join_split_on)
  with f show ?thesis
    by (simp add: join_def posix_join_def posix_normalize_def Let_def)
qed

lemma join_root_absolute: "startsWith (join [''/'', p]) ''/''"
  by (cases "p = []")
     (simp_all add: join_def posix_join_def posix_normalize_def Let_def startsWith_def)

text \<open>
  Claim C10, as amended. Every call of \<open>copy\<close> registers one static mapping whose source
  and destination prefixes are \<^verbatim>\<open>join("/", from)\<close> and \<^verbatim>\<open>join("/", to)\<close>; both begin with
  a slash; when the destination is omitted it is the source, so \<open>copy p\<close> registers
  the pair of \<^verbatim>\<open>join("/", p)\<close> with itself. That is the pair of \<^verbatim>\<open>"/" + p\<close> with itself when
  \<open>p\<close> is a relative path in normal form: its segments are not empty and none is
  \<^verbatim>\<open>.\<close> or \<^verbatim>\<open>..\<close>.
\<close>

theorem copy_registers:
  "staticFiles (source (copy p to_arg site)) =
     staticFiles (source site) @
       [(join [''/'', p], join [''/'', (case to_arg of None \<Rightarrow> p | Some t \<Rightarrow> t)])] \<and>
   (join [''/'', p], join [''/'', (case to_arg of None \<Rightarrow> p | Some t \<Rightarrow> t)]) \<in>
     set (staticFiles (source (copy p to_arg site))) \<and>
   startsWith (join [''/'', p]) ''/'' \<and>
   startsWith (join [''/'', (case to_arg of None \<Rightarrow> p | Some t \<Rightarrow> t)]) ''/'' \<and>
   staticFiles (source (copy p None site)) =
     staticFiles (source site) @ [(join [''/'', p], join [''/'', p])] \<and>
   (plain_relative p \<longrightarrow>
      staticFiles (source (copy p None site)) = staticFiles (source site) @ [(''/'' @ p, ''/'' @ p)])"
  by (simp add: copy_def addStaticFile_def Let_def join_root_absolute join_root_plain)

theorem copy_registers_witness:
  "plain_relative ''assets'' \<and>
   staticFiles (source (copy ''assets'' None demo_site)) = [(''/assets'', ''/assets'')] \<and>
   staticFiles (source (copy ''static'' (Some ''.'') demo_site)) = [(''/static'', ''/'')]"
proof -
  have a: "plain_relative ''assets''" by code_simp
  have b: "join [''/'', ''.''] = ''/''" by code_simp
  have c: "join [''/'', ''static''] = ''/static''" by code_simp
  from a copy_registers [of "''assets''" None demo_site]
  have "staticFiles (source (copy ''assets'' None demo_site)) =
      staticFiles (source demo_site) @ [(''/'' @ ''assets'', ''/'' @ ''assets'')]"
    by blast
  then have d: "staticFiles (source (copy ''assets'' None demo_site)) = [(''/assets'', ''/assets'')]"
    by (simp add: source_demo_site)
  from copy_registers [of "''static''" "Some ''.''" demo_site]
  have "staticFiles (source (copy ''static'' (Some ''.'') demo_site)) =
      staticFiles (source demo_site) @
        [(join [''/'', ''static''], join [''/'', (case Some ''.'' of None \<Rightarrow> ''static'' | Some t \<Rightarrow> t)])]"
    by blast
  then have e: "staticFiles (source (copy ''static'' (Some ''.'') demo_site)) = [(''/static'', ''/'')]"
    by (simp add: source_demo_site b c)
  from a d e show ?thesis by blast
qed

text \<open>
  The pair \<^verbatim>\<open>"/" + p\<close> is not what \<open>copy\<close> registers when \<open>p\<close> itself begins with a slash.
\<close>

theorem copy_registers_counterexample:
  "staticFiles (source (copy ''/assets'' None demo_site)) = [(''/assets'', ''/assets'')] \<and>
   (''/'' @ ''/assets'', ''/'' @ ''/assets'') \<notin>
     set (staticFiles (source (copy ''/assets'' None demo_site)))"
proof -
  have "staticFiles (source (copy ''/assets'' None demo_site)) = [(''/assets'', ''/assets'')]"
    by code_simp
  then show ?thesis by simp
qed

lemma startsWith_tilde:
  assumes "startsWith path ''~/''"
  shows "\<not> startsWith path ''./''" "\<not> startsWith path ''../''" "\<not> startsWith path ''?''"
    "\<not> startsWith path ''#''" "\<not> startsWith path ''//''"
    "replaceAll (drop 1 path) (CHR ''/'') SEP = CHR ''/'' # drop 2 path"
proof -
  from assms obtain r where p: "path = ''~/'' @ r"
    by (auto simp: startsWith_append)
  show "\<not> startsWith path ''./''" "\<not> startsWith path ''../''" "\<not> startsWith path ''?''"
    "\<not> startsWith path ''#''" "\<not> startsWith path ''//''"
    by (simp_all add: p startsWith_def)
  have "map (\<lambda>c. if c = CHR ''/'' then CHR ''/'' else c) r = r"
    by (induction r) auto
  then show "replaceAll (drop 1 path) (CHR ''/'') SEP = CHR ''/'' # drop 2 path"
    by (simp add: p replaceAll_def SEP_def)
qed

lemma find_None_iff_Ball: "find P xs = None \<longleftrightarrow> (\<forall>x\<in>set xs. \<not> P x)"
  by (induction xs) auto

text \<open>
  Claim C3, as amended. For every path that begins with \<^verbatim>\<open>~/\<close>: when the path without
  its first character (the tilde; the slash stays) is decoded, no page of the site has
  this decoded path as its source path followed by its extension, and no static mapping
  has a source prefix that is a prefix of it, then \<open>url\<close> fails with \<open>SourceNotFound\<close>
  carrying the decoded path, which begins with a slash. So \<^verbatim>\<open>~/blog/post.md\<close> with no page
  and no mapping fails with the path \<^verbatim>\<open>/blog/post.md\<close>.
\<close>

theorem url_source_not_found:
  "startsWith path ''~/'' \<and>
   decodeURI (replaceAll (drop 1 path) (CHR ''/'') SEP) = Some decoded \<and>
   (\<forall>page\<in>set (pages site). src_path page @ src_ext page \<noteq> decoded) \<and>
   (\<forall>entry\<in>set (staticFiles (source site)). \<not> startsWith decoded (fst entry)) \<longrightarrow>
     url rt site path absolute = Inl (SourceNotFound decoded) \<and> startsWith decoded ''/''"
proof
  assume a: "startsWith path ''~/'' \<and>
   decodeURI (replaceAll (drop 1 path) (CHR ''/'') SEP) = Some decoded \<and>
   (\<forall>page\<in>set (pages site). src_path page @ src_ext page \<noteq> decoded) \<and>
   (\<forall>entry\<in>set (staticFiles (source site)). \<not> startsWith decoded (fst entry))"
  then have t: "startsWith path ''~/''" by simp
  from a have np: "find (\<lambda>page. src_path page @ src_ext page = decoded) (pages site) = None"
    by (simp add: find_None_iff_Ball)
  from a have ns: "isStatic (source site) decoded = None"
    by (auto simp: isStatic_def find_None_iff_Ball)
  from a startsWith_tilde(6) [OF t] have "startsWith decoded ''/''"
    by (auto simp: startsWith_def)
  moreover from a np ns have "url rt site path absolute = Inl (SourceNotFound decoded)"
    by (simp add: url_def startsWith_tilde(1-5) [OF t])
  ultimately show "url rt site path absolute = Inl (SourceNotFound decoded) \<and>
      startsWith decoded ''/''" by simp
qed

theorem url_source_not_found_witness:
  "startsWith ''~/blog/post.md'' ''~/'' \<and>
   decodeURI (replaceAll (drop 1 ''~/blog/post.md'') (CHR ''/'') SEP) = Some ''/blog/post.md'' \<and>
   pages demo_site = [] \<and> staticFiles (source demo_site) = [] \<and>
   url demo_runtime demo_site ''~/blog/post.md'' False = Inl (SourceNotFound ''/blog/post.md'')"
proof -
  have a: "startsWith ''~/blog/post.md'' ''~/''" by (simp add: startsWith_def)
  have b: "decodeURI (replaceAll (drop 1 ''~/blog/post.md'') (CHR ''/'') SEP) = Some ''/blog/post.md''"
    by code_simp
  have c: "pages demo_site = []"
    by (simp add: demo_site_def constructor_def Let_def ignore_def)
  have d: "staticFiles (source demo_site) = []" by (simp add: source_demo_site)
  from a b c d
    url_source_not_found [of "''~/blog/post.md''" "''/blog/post.md''" demo_site demo_runtime False]
  show ?thesis by simp
qed

text \<open>
  The path in the error keeps its leading slash: it is not \<^verbatim>\<open>blog/post.md\<close>.
\<close>

theorem url_source_not_found_counterexample:
  "url demo_runtime demo_site ''~/blog/post.md'' False = Inl (SourceNotFound ''/blog/post.md'') \<and>
   url demo_runtime demo_site ''~/blog/post.md'' False \<noteq> Inl (SourceNotFound ''blog/post.md'')"
proof -
  have "decodeURI (replaceAll (drop 1 ''~/blog/post.md'') (CHR ''/'') SEP) = Some ''/blog/post.md''"
    by code_simp
  moreover have "pages demo_site = []"
    by (simp add: demo_site_def constructor_def Let_def ignore_def)
  ultimately have "url demo_runtime demo_site ''~/blog/post.md'' False =
      Inl (SourceNotFound ''/blog/post.md'')"
    by (simp add: url_def startsWith_def isStatic_def source_demo_site)
  then show ?thesis by simp
qed

text \<open>
  Claim C5, as amended. For every path that begins with \<^verbatim>\<open>~/\<close> and whose decoded form
  (the path without the tilde, decoded) is the source path and extension of a loaded
  page, \<open>url\<close> resolves the first such page and neither looks at the static mappings nor
  fails. The result is the URL in the data of the page when that URL starts with the
  base path of the site, and the base path joined with that URL when it does not; the
  origin is put in front when an absolute URL is asked for.
\<close>

theorem url_page:
  "startsWith path ''~/'' \<and>
   decodeURI (replaceAll (drop 1 path) (CHR ''/'') SEP) = Some decoded \<and>
   find (\<lambda>page. src_path page @ src_ext page = decoded) (pages site) = Some page \<longrightarrow>
     page \<in> set (pages site) \<and> src_path page @ src_ext page = decoded \<and>
     url rt site path absolute = Inr (url_base site (data_url page) absolute) \<and>
     (startsWith (data_url page) (location_pathname (options site)) \<longrightarrow>
        url rt site path False = Inr (data_url page) \<and>
        url rt site path True = Inr (location_origin (options site) @ data_url page)) \<and>
     (\<not> startsWith (data_url page) (location_pathname (options site)) \<longrightarrow>
        url rt site path False =
          Inr (posix_join [location_pathname (options site), data_url page]) \<and>
        url rt site path True =
          Inr (location_origin (options site) @
               posix_join [location_pathname (options site), data_url page]))"
proof
  assume a: "startsWith path ''~/'' \<and>
   decodeURI (replaceAll (drop 1 path) (CHR ''/'') SEP) = Some decoded \<and>
   find (\<lambda>page. src_path page @ src_ext page = decoded) (pages site) = Some page"
  then have t: "startsWith path ''~/''" by simp
  from a have m: "page \<in> set (pages site) \<and> src_path page @ src_ext page = decoded"
    by (auto simp: find_Some_iff)
  from a have u: "\<And>absolute. url rt site path absolute =
      Inr (url_base site (data_url page) absolute)"
    by (simp add: url_def startsWith_tilde(1-5) [OF t])
  from m u show "page \<in> set (pages site) \<and> src_path page @ src_ext page = decoded \<and>
     url rt site path absolute = Inr (url_base site (data_url page) absolute) \<and>
     (startsWith (data_url page) (location_pathname (options site)) \<longrightarrow>
        url rt site path False = Inr (data_url page) \<and>
        url rt site path True = Inr (location_origin (options site) @ data_url page)) \<and>
     (\<not> startsWith (data_url page) (location_pathname (options site)) \<longrightarrow>
        url rt site path False =
          Inr (posix_join [location_pathname (options site), data_url page]) \<and>
        url rt site path True =
          Inr (location_origin (options site) @
               posix_join [location_pathname (options site), data_url page]))"
    by (simp add: url_base_def)
qed

lemma decode_post: "decodeURI (replaceAll (drop 1 ''~/post.md'') (CHR ''/'') SEP) = Some ''/post.md''"
  by code_simp

lemma post_page_source: "src_path post_page @ src_ext post_page = ''/post.md''"
  by (simp add: post_page_def)

lemma options_post_site:
  "location_pathname (options post_site) = ''/''"
  "location_origin (options post_site) = ''http://localhost''"
  by code_simp+

lemma options_blog_site:
  "location_pathname (options blog_site) = ''/blog/''"
  "location_origin (options blog_site) = ''http://example.com''"
  by code_simp+

theorem url_page_witness:
  "startsWith ''~/post.md'' ''~/'' \<and>
   decodeURI (replaceAll (drop 1 ''~/post.md'') (CHR ''/'') SEP) = Some ''/post.md'' \<and>
   find (\<lambda>page. src_path page @ src_ext page = ''/post.md'') (pages post_site) = Some post_page \<and>
   startsWith (data_url post_page) (location_pathname (options post_site)) \<and>
   url demo_runtime post_site ''~/post.md'' False = Inr ''/post/'' \<and>
   url demo_runtime post_site ''~/post.md'' True = Inr ''http://localhost/post/'' \<and>
   find (\<lambda>page. src_path page @ src_ext page = ''/post.md'') (pages blog_site) = Some post_page \<and>
   \<not> startsWith (data_url post_page) (location_pathname (options blog_site)) \<and>
   url demo_runtime blog_site ''~/post.md'' False = Inr ''/blog/post/''"
proof -
  have a: "startsWith ''~/post.md'' ''~/''" by (simp add: startsWith_def)
  have b: "find (\<lambda>page. src_path page @ src_ext page = ''/post.md'') (pages post_site) = Some post_page"
    by (simp add: post_site_def post_page_source)
  have c: "startsWith (data_url post_page) (location_pathname (options post_site))"
    by (simp add: options_post_site post_page_def startsWith_def)
  have d: "find (\<lambda>page. src_path page @ src_ext page = ''/post.md'') (pages blog_site) = Some post_page"
    by (simp add: blog_site_def post_page_source)
  have e: "\<not> startsWith (data_url post_page) (location_pathname (options blog_site))"
    by (simp add: options_blog_site post_page_def startsWith_def)
  have j: "posix_join [''/blog/'', ''/post/''] = ''/blog/post/''" by code_simp
  from a decode_post b c
    url_page [of "''~/post.md''" "''/post.md''" post_site post_page demo_runtime False]
  have f: "url demo_runtime post_site ''~/post.md'' False = Inr (data_url post_page)"
    and g: "url demo_runtime post_site ''~/post.md'' True =
      Inr (location_origin (options post_site) @ data_url post_page)"
    by blast+
  from a decode_post d e
    url_page [of "''~/post.md''" "''/post.md''" blog_site post_page demo_runtime False]
  have h: "url demo_runtime blog_site ''~/post.md'' False =
      Inr (posix_join [location_pathname (options blog_site), data_url post_page])"
    by blast
  from f have f': "url demo_runtime post_site ''~/post.md'' False = Inr ''/post/''"
    by (simp add: post_page_def)
  from g have g': "url demo_runtime post_site ''~/post.md'' True = Inr ''http://localhost/post/''"
    by (simp add: post_page_def options_post_site)
  from h have h': "url demo_runtime blog_site ''~/post.md'' False = Inr ''/blog/post/''"
    by (simp add: post_page_def options_blog_site j)
  from a decode_post b c d e f' g' h' show ?thesis by blast
qed

text \<open>
  On a site whose base path is \<^verbatim>\<open>/blog/\<close> the result is not the URL in the data of the
  page: the base path is put in front of it.
\<close>

theorem url_page_counterexample:
  "find (\<lambda>page. src_path page @ src_ext page = ''/post.md'') (pages blog_site) = Some post_page \<and>
   data_url post_page = ''/post/'' \<and>
   url demo_runtime blog_site ''~/post.md'' False = Inr ''/blog/post/'' \<and>
   url demo_runtime blog_site ''~/post.md'' False \<noteq> Inr (data_url post_page) \<and>
   url demo_runtime blog_site ''~/post.md'' True = Inr ''http://example.com/blog/post/'' \<and>
   url demo_runtime blog_site ''~/post.md'' True \<noteq>
     Inr (location_origin (options blog_site) @ data_url post_page)"
proof -
  have d: "find (\<lambda>page. src_path page @ src_ext page = ''/post.md'') (pages blog_site) = Some post_page"
    by (simp add: blog_site_def post_page_source)
  have j: "posix_join [''/blog/'', ''/post/''] = ''/blog/post/''" by code_simp
  have u: "\<And>absolute. url demo_runtime blog_site ''~/post.md'' absolute =
      Inr (url_base blog_site ''/post/'' absolute)"
    using decode_post d by (simp add: url_def startsWith_def post_page_def)
  have "url_base blog_site ''/post/'' False = ''/blog/post/''"
    and "url_base blog_site ''/post/'' True = ''http://example.com/blog/post/''"
    by (simp_all add: url_base_def options_blog_site startsWith_def j)
  with d u show ?thesis by (simp add: post_page_def options_blog_site)
qed

end
